theory Spec2Isabelle
  imports Main
begin

section \<open>Camera (the TypeScript class Camera)\<close>

text \<open>
  A MediaStreamTrack is named by a number. A MediaStream holds its video and its audio
  tracks; \<open>getVideoTracks()\<close> returns the former. A thrown JavaScript value is an
  \<open>Error\<close> with its \<open>name\<close> and \<open>message\<close>, or the \<open>MediaError\<close> of the source, which
  keeps the \<open>type\<close> and the \<open>inner\<close> error.
\<close>

type_synonym track = nat

record media_stream =
  videoTracks :: "track list"
  audioTracks :: "track list"

datatype js_error =
    Error string string
  | MediaError string js_error

fun error_name :: "js_error \<Rightarrow> string" where
  "error_name (Error n m) = n"
| "error_name (MediaError t inner) = ''Error''"

text \<open>
  The fields of a Camera: \<open>id\<close>, \<open>name\<close> and the private \<open>_stream\<close>, which is \<open>null\<close>
  (\<open>None\<close>) when no stream is held.
\<close>

record camera =
  cam_id :: string
  cam_name :: string
  stream :: "media_stream option"

definition new_Camera :: "string \<Rightarrow> string \<Rightarrow> camera" where
  "new_Camera i n = \<lparr>cam_id = i, cam_name = n, stream = None\<rparr>"

text \<open>
  \<open>Camera.wrapErrors(fn)\<close>: the outcome of the awaited \<open>fn()\<close> is given (\<open>Inl e\<close> when it
  throws \<open>e\<close>). An error with a non-empty \<open>name\<close> is wrapped in a \<open>MediaError\<close> unless
  \<open>NODE_ENV\<close> is \<open>development\<close>.
\<close>

definition wrapErrors :: "bool \<Rightarrow> js_error + 'a \<Rightarrow> js_error + 'a" where
  "wrapErrors development outcome =
     (case outcome of
        Inr v \<Rightarrow> Inr v
      | Inl e \<Rightarrow>
          if error_name e \<noteq> [] \<and> \<not> development
          then Inl (MediaError (error_name e) e)
          else Inl e)"

text \<open>
  \<open>Camera.start()\<close> is an \<open>async\<close> method without parameters: it asks
  \<open>getUserMedia\<close> for a stream, and when that promise settles it either stores the stream
  in \<open>_stream\<close> and resolves with it, or rejects with the wrapped error, \<open>_stream\<close>
  untouched. \<open>Camera_start\<close> takes the outcome of \<open>getUserMedia\<close> and returns the camera
  and the settled promise. Whatever a caller passes to \<open>start\<close> is dropped, the method
  having no parameter.
\<close>

definition Camera_start ::
  "bool \<Rightarrow> js_error + media_stream \<Rightarrow> camera \<Rightarrow> camera \<times> (js_error + media_stream)" where
  "Camera_start development getUserMedia c =
     (case wrapErrors development getUserMedia of
        Inl e \<Rightarrow> (c, Inl e)
      | Inr st \<Rightarrow> (c\<lparr>stream := Some st\<rparr>, Inr st))"

text \<open>
  \<open>Camera.stop()\<close>: returns at once when \<open>_stream\<close> is \<open>null\<close>; otherwise calls
  \<open>stop()\<close> on every video track, in order, and clears \<open>_stream\<close>. The second component
  lists the tracks on which \<open>stop()\<close> was called.
\<close>

definition Camera_stop :: "camera \<Rightarrow> camera \<times> track list" where
  "Camera_stop c =
     (case stream c of
        None \<Rightarrow> (c, [])
      | Some st \<Rightarrow> (c\<lparr>stream := None\<rparr>, videoTracks st))"

section \<open>Analyzer\<close>

text \<open>
  What one call of \<open>analyze\<close> reads from its collaborators: the dimensions of the video
  element, the address \<open>ZXing._resize\<close> would return, the RGBA bytes \<open>getImageData\<close>
  would return, the calls \<open>ZXing._decode_qr\<close> would make to the decode callback (each
  with its \<open>resultIndex\<close> and decoded characters) and its return value, and the data URL
  \<open>canvas.toDataURL\<close> would return.
\<close>

record frame =
  videoWidth :: nat
  videoHeight :: nat
  resize_result :: nat
  pixels :: "nat list"
  decode_calls :: "(nat \<times> string) list"
  decode_err :: int
  dataURL :: string

text \<open>
  The fields of an Analyzer; \<open>null\<close> is \<open>None\<close>. \<open>canvasContext\<close> records whether the 2d
  context has been obtained. \<open>zxDecodeResult\<close> is the global \<open>window.zxDecodeResult\<close>
  the decode callback writes, \<open>undefined\<close> until the first write on the page. The
  constructor does not touch it: \<open>new_Analyzer\<close> is given its value at that moment.
\<close>

record analyzer =
  imageBuffer :: "nat option"
  sensorLeft :: "int option"
  sensorTop :: "int option"
  sensorWidth :: "nat option"
  sensorHeight :: "nat option"
  canvas_width :: nat
  canvas_height :: nat
  canvasContext :: bool
  zxDecodeResult :: "string option"

definition new_Analyzer :: "string option \<Rightarrow> analyzer" where
  "new_Analyzer zx =
     \<lparr>imageBuffer = None, sensorLeft = None, sensorTop = None, sensorWidth = None,
      sensorHeight = None, canvas_width = 300, canvas_height = 150,
      canvasContext = False, zxDecodeResult = zx\<rparr>"

text \<open>
  The decode callback: \<open>resultIndex === 0\<close> resets the global to the empty string, then
  the characters are appended (to the text \<open>undefined\<close> when the global was never set).
\<close>

definition decodeCallback :: "string option \<Rightarrow> nat \<times> string \<Rightarrow> string option" where
  "decodeCallback zx call =
     (let zx1 = (if fst call = 0 then Some [] else zx)
      in case zx1 of
           None \<Rightarrow> Some (''undefined'' @ snd call)
         | Some r \<Rightarrow> Some (r @ snd call))"

text \<open>
  The copy loop \<open>for (i = 0, j = 0; i < data.length; i += 4, j++)\<close> takes the first byte
  of every group of four and stores it at \<open>imageBuffer + j\<close>.
\<close>

fun every_fourth :: "nat list \<Rightarrow> nat list" where
  "every_fourth [] = []"
| "every_fourth (b # bs) = b # every_fourth (drop 3 bs)"

definition copy_pixels :: "nat \<Rightarrow> nat list \<Rightarrow> (nat \<times> nat) list" where
  "copy_pixels buf data =
     map (\<lambda>(j, b). (buf + j, b))
       (zip [0 ..< length (every_fourth data)] (every_fourth data))"

text \<open>
  What one call of \<open>analyze\<close> did: whether the frame was drawn and read back, the bytes
  written to the decoder's heap, whether the decoder was invoked, and the argument of
  the caller's callback when it was called.
\<close>

record analysis =
  drawn :: bool
  heap_writes :: "(nat \<times> nat) list"
  decoder_invoked :: bool
  callback_arg :: "string option"

definition nothing_done :: analysis where
  "nothing_done =
     \<lparr>drawn = False, heap_writes = [], decoder_invoked = False, callback_arg = None\<rparr>"

text \<open>
  The branch \<open>if (!this.imageBuffer)\<close>: the sensor is the whole frame, so
  \<open>Math.floor(videoWidth / 2 - sensorWidth / 2)\<close> is the floor of half the difference
  (exact in floating point for these integers).
\<close>

definition establish_geometry :: "frame \<Rightarrow> analyzer \<Rightarrow> analyzer" where
  "establish_geometry f a =
     a\<lparr>sensorWidth := Some (videoWidth f),
       sensorHeight := Some (videoHeight f),
       sensorLeft := Some ((int (videoWidth f) - int (videoWidth f)) div 2),
       sensorTop := Some ((int (videoHeight f) - int (videoHeight f)) div 2),
       canvas_width := videoWidth f,
       canvas_height := videoHeight f,
       canvasContext := True,
       imageBuffer := Some (resize_result f)\<rparr>"

definition decode_frame :: "nat \<Rightarrow> frame \<Rightarrow> analyzer \<Rightarrow> analyzer \<times> analysis" where
  "decode_frame buf f a =
     (let zx = foldl decodeCallback (zxDecodeResult a) (decode_calls f);
          a1 = a\<lparr>zxDecodeResult := zx\<rparr>
      in (a1,
          \<lparr>drawn = True,
           heap_writes = copy_pixels buf (pixels f),
           decoder_invoked = True,
           callback_arg = (if decode_err f \<noteq> 0 then None else zx)\<rparr>))"

definition analyze :: "frame \<Rightarrow> analyzer \<Rightarrow> analyzer \<times> analysis" where
  "analyze f a =
     (if videoWidth f = 0 then (a, nothing_done)
      else case imageBuffer a of
             None \<Rightarrow> (establish_geometry f a, nothing_done)
           | Some buf \<Rightarrow>
               if buf = 0 then (establish_geometry f a, nothing_done)
               else decode_frame buf f a)"

section \<open>ActiveScan\<close>

text \<open>The events a Scanner emits, with their arguments.\<close>

datatype emitted =
    active_event
  | inactive_event
  | error_event js_error
  | scan_event string "string option"

text \<open>
  One ActiveScan with the callbacks it has scheduled. The first block is the object's
  own fields (\<open>lastResult\<close> is \<open>undefined\<close> or \<open>null\<close> as \<open>None\<close>; \<open>refractoryTimeout\<close>
  is the time at which the live refractory timer is due, \<open>None\<close> when none is live).
  The second block is its surroundings: the analyzer it calls, the number of
  \<open>requestAnimationFrame\<close> callbacks requested and not yet run, the \<open>setTimeout(.., 0)\<close>
  emissions not yet run, the \<open>scan\<close> events emitted, the time in milliseconds, and the
  number of calls made to \<open>analyze\<close>.
\<close>

record session =
  active :: bool
  scanPeriod :: nat
  frameCount :: nat
  captureImage :: bool
  refractoryPeriod :: nat
  lastResult :: "string option"
  refractoryTimeout :: "nat option"
  analyzer :: analyzer
  frames_requested :: nat
  emissions_queued :: "(string \<times> string option) list"
  emitted :: "emitted list"
  clock :: nat
  attempts :: nat

definition new_ActiveScan :: "analyzer \<Rightarrow> bool \<Rightarrow> nat \<Rightarrow> nat \<Rightarrow> session" where
  "new_ActiveScan an capture period refractory =
     \<lparr>active = False, scanPeriod = period, frameCount = 0, captureImage = capture,
      refractoryPeriod = refractory, lastResult = None, refractoryTimeout = None,
      analyzer = an, frames_requested = 0, emissions_queued = [], emitted = [],
      clock = 0, attempts = 0\<rparr>"

definition ActiveScan_start :: "session \<Rightarrow> session" where
  "ActiveScan_start w = w\<lparr>active := True, frames_requested := frames_requested w + 1\<rparr>"

definition ActiveScan_stop :: "session \<Rightarrow> session" where
  "ActiveScan_stop w = w\<lparr>active := False\<rparr>"

text \<open>
  \<open>setTimeout\<close> takes its delay as a signed 32-bit integer: the number of milliseconds
  is reduced modulo \<open>2^32\<close>, and what then reads as negative (from \<open>2^31\<close> on) counts as
  zero.
\<close>

definition setTimeout_delay :: "nat \<Rightarrow> nat" where
  "setTimeout_delay ms = (let d = ms mod 2 ^ 32 in if d < 2 ^ 31 then d else 0)"

text \<open>
  The callback \<open>scan\<close> hands to \<open>analyze\<close>, called with a decoded result: a result equal
  to \<open>lastResult\<close> returns at once; any other replaces the refractory timer, becomes
  \<open>lastResult\<close>, and is queued for emission with the snapshot when \<open>captureImage\<close> is set.
\<close>

definition on_result :: "string \<Rightarrow> string \<Rightarrow> session \<Rightarrow> session" where
  "on_result result url w =
     (if lastResult w = Some result then w
      else w\<lparr>refractoryTimeout := Some (clock w + setTimeout_delay (refractoryPeriod w)),
             lastResult := Some result,
             emissions_queued := emissions_queued w
               @ [(result, if captureImage w then Some url else None)]\<rparr>)"

definition ActiveScan_scan :: "frame \<Rightarrow> session \<Rightarrow> session" where
  "ActiveScan_scan f w =
     (if \<not> active w then w
      else
        let w1 = w\<lparr>frames_requested := frames_requested w + 1\<rparr>;
            w2 = w1\<lparr>frameCount := frameCount w1 + 1\<rparr>
        in if frameCount w2 \<noteq> scanPeriod w2 then w2
           else
             let w3 = w2\<lparr>frameCount := 0\<rparr>;
                 r = analyze f (analyzer w3);
                 w4 = w3\<lparr>analyzer := fst r, attempts := attempts w3 + 1\<rparr>
             in case callback_arg (snd r) of
                  None \<Rightarrow> w4
                | Some result \<Rightarrow> on_result result (dataURL f) w4)"

text \<open>
  What can happen to a session: a requested animation frame runs \<open>scan\<close> (with what the
  analyzer will read); the refractory timer fires, not before it is due, and clears
  \<open>lastResult\<close>; the oldest queued emission runs; time passes; \<open>stop\<close> is called.
\<close>

datatype scan_op =
    Frame frame
  | RefractoryTimer
  | EmitTimer
  | Elapse nat
  | StopScan

fun scan_step :: "session \<Rightarrow> scan_op \<Rightarrow> session" where
  "scan_step w (Frame f) =
     (if frames_requested w = 0 then w
      else ActiveScan_scan f (w\<lparr>frames_requested := frames_requested w - 1\<rparr>))"
| "scan_step w RefractoryTimer =
     (case refractoryTimeout w of
        None \<Rightarrow> w
      | Some due \<Rightarrow>
          if clock w < due then w
          else w\<lparr>lastResult := None, refractoryTimeout := None\<rparr>)"
| "scan_step w EmitTimer =
     (case emissions_queued w of
        [] \<Rightarrow> w
      | (result, img) # q \<Rightarrow>
          w\<lparr>emissions_queued := q, emitted := emitted w @ [scan_event result img]\<rparr>)"
| "scan_step w (Elapse ms) = w\<lparr>clock := clock w + ms\<rparr>"
| "scan_step w StopScan = ActiveScan_stop w"

definition scan_run :: "session \<Rightarrow> scan_op list \<Rightarrow> session" where
  "scan_run w ops = foldl scan_step w ops"

section \<open>The state machine of the Scanner\<close>

text \<open>
  The Scanner keeps its state in a machine built by \<open>StateMachine.create\<close> of the library
  \<open>javascript-state-machine\<close>, whose code is not among the sources.

  Modelled from the spec: the four states and the table of events (section 4.1); a
  transition that a leave callback vetoes, the state staying as it was; a transition
  suspended until an asynchronous result, then committed (\<open>transition()\<close>) or abandoned
  (\<open>transition.cancel()\<close>); leave callbacks running before enter callbacks. Where the
  spec is silent the definitions follow the interface the source relies on (version 2 of
  the library): \<open>can(e)\<close> is false while a transition is pending; an event fired while a
  transition is pending, or in a state outside its \<open>from\<close> list, raises the library's
  error, which the default \<open>error\<close> handler throws (the source installs none).
\<close>

datatype fsm_state = Stopped | Started | Active | Inactive

datatype fsm_event = start_event | stop_event | activate_event | deactivate_event

text \<open>A Camera object is referred to by its address in the store of cameras.\<close>

type_synonym camera_ref = nat

text \<open>
  A pending transition: the event, the states it leaves and enters, and the argument the
  event was fired with (the camera, \<open>None\<close> for \<open>null\<close> or no argument).
\<close>

record pending =
  p_name :: fsm_event
  p_from :: fsm_state
  p_to :: fsm_state
  p_args :: "camera_ref option"

definition events_table :: "(fsm_event \<times> fsm_state list \<times> fsm_state) list" where
  "events_table =
     [(start_event, [Stopped], Started),
      (stop_event, [Started, Active, Inactive], Stopped),
      (activate_event, [Started, Inactive], Active),
      (deactivate_event, [Started, Active], Inactive)]"

fun lookup_event ::
  "(fsm_event \<times> fsm_state list \<times> fsm_state) list \<Rightarrow> fsm_event \<Rightarrow> fsm_state
     \<Rightarrow> fsm_state option" where
  "lookup_event [] name src = None"
| "lookup_event ((n, srcs, dst) # es) name src =
     (if n = name \<and> src \<in> set srcs then Some dst else lookup_event es name src)"

text \<open>
  What a call can throw: the two errors of the library, the \<open>TypeError\<close> of calling
  \<open>this._fsm.transition\<close> when it is \<open>null\<close>, and the error that \<open>emit('error', err)\<close>
  of an EventEmitter throws when no listener for \<open>error\<close> is attached.
\<close>

datatype exception =
    PENDING_TRANSITION fsm_event
  | INVALID_TRANSITION fsm_event
  | TypeError
  | Unhandled_error js_error

datatype fsm_result =
    SUCCEEDED
  | NOTRANSITION
  | CANCELLED
  | PENDING
  | Returned_undefined
  | Thrown exception

datatype leave_result = Leave_false | Leave_ASYNC | Leave_undefined

datatype visibility = Visible | Hidden | Prerender

section \<open>Scanner\<close>

text \<open>
  The first block is the Scanner itself: \<open>_fsm.current\<close>, \<open>_fsm.transition\<close>, \<open>_scan\<close>,
  \<open>_camera\<close>, the four options, \<open>video.src\<close> and the analyzer. The second block is what
  surrounds it: \<open>Visibility.state()\<close>, the Camera objects by address, the tracks on which
  \<open>stop()\<close> was called, the cameras whose \<open>getUserMedia\<close> request has not settled yet,
  every camera on which \<open>start\<close> was called (oldest first), the number of
  \<open>setTimeout(.., 0)\<close> callbacks of the visibility handler not yet run, the number of
  listeners attached for \<open>error\<close>, and the events \<open>emit\<close> was called with, oldest first.
  The Analyzer is one object shared by every ActiveScan: while an ActiveScan is held
  its state is the \<open>analyzer\<close> of that session, otherwise \<open>the_analyzer\<close>.
\<close>

record scanner =
  current :: fsm_state
  transition :: "pending option"
  the_scan :: "session option"
  the_camera :: "camera_ref option"
  opt_scanPeriod :: nat
  opt_refractoryPeriod :: nat
  opt_captureImage :: bool
  backgroundScan :: bool
  video_src :: string
  the_analyzer :: analyzer
  page :: visibility
  cameras :: "camera_ref \<Rightarrow> camera"
  stopped_tracks :: "track list"
  media_requests :: "camera_ref list"
  started_cameras :: "camera_ref list"
  deferred_activations :: nat
  error_listeners :: nat
  events :: "emitted list"

definition emit :: "emitted \<Rightarrow> scanner \<Rightarrow> scanner" where
  "emit e s = s\<lparr>events := events s @ [e]\<rparr>"

definition can :: "fsm_event \<Rightarrow> scanner \<Rightarrow> bool" where
  "can name s \<longleftrightarrow>
     transition s = None \<and> lookup_event events_table name (current s) \<noteq> None"

text \<open>
  \<open>_disableScan\<close>: clears \<open>video.src\<close>, stops and drops the ActiveScan if there is one,
  and calls \<open>stop()\<close> on \<open>_camera\<close> if there is one.
\<close>

definition disableScan :: "scanner \<Rightarrow> scanner" where
  "disableScan s =
     (let s1 = s\<lparr>video_src := []\<rparr>;
          s2 = (case the_scan s1 of
                  None \<Rightarrow> s1
                | Some w \<Rightarrow> s1\<lparr>the_scan := None, the_analyzer := analyzer w\<rparr>)
      in case the_camera s2 of
           None \<Rightarrow> s2
         | Some c \<Rightarrow>
             s2\<lparr>cameras := (cameras s2)(c := fst (Camera_stop (cameras s2 c))),
                stopped_tracks := stopped_tracks s2 @ snd (Camera_stop (cameras s2 c))\<rparr>)"

text \<open>
  \<open>_enableScan\<close> up to its \<open>return\<close>: \<open>camera || this._camera\<close> becomes \<open>_camera\<close>; with
  no camera the result is \<open>false\<close>; otherwise \<open>start\<close> is called on the camera, which
  issues its \<open>getUserMedia\<close> request, and the result is \<open>StateMachine.ASYNC\<close>. The
  callback handed to \<open>start\<close> is \<open>enableScan_callback\<close> below.
\<close>

definition enableScan :: "camera_ref option \<Rightarrow> scanner \<Rightarrow> leave_result \<times> scanner" where
  "enableScan camera s =
     (let s1 = s\<lparr>the_camera := (case camera of Some c \<Rightarrow> Some c | None \<Rightarrow> the_camera s)\<rparr>
      in case the_camera s1 of
           None \<Rightarrow> (Leave_false, s1)
         | Some c \<Rightarrow>
             (Leave_ASYNC,
              s1\<lparr>media_requests := media_requests s1 @ [c],
                 started_cameras := started_cameras s1 @ [c]\<rparr>))"

definition onleaveactive :: "scanner \<Rightarrow> scanner" where
  "onleaveactive s = emit inactive_event (disableScan s)"

definition onleavestate ::
  "fsm_state \<Rightarrow> camera_ref option \<Rightarrow> scanner \<Rightarrow> leave_result \<times> scanner" where
  "onleavestate dst camera s =
     (if dst = Active
      then if page s \<noteq> Visible \<and> \<not> backgroundScan s then (Leave_false, s)
           else enableScan camera s
      else (Leave_undefined, s))"

text \<open>
  The library's \<open>leaveState\<close>: the callback of the state left (only \<open>onleaveactive\<close>
  exists, and it returns nothing), then \<open>onleavestate\<close>; \<open>false\<close> from either wins, then
  \<open>ASYNC\<close> from either.
\<close>

definition leaveState ::
  "fsm_state \<Rightarrow> fsm_state \<Rightarrow> camera_ref option \<Rightarrow> scanner \<Rightarrow> leave_result \<times> scanner" where
  "leaveState src dst args s =
     (let specific = Leave_undefined;
          s1 = (if src = Active then onleaveactive s else s);
          general = onleavestate dst args s1
      in (if specific = Leave_false \<or> fst general = Leave_false then Leave_false
          else if specific = Leave_ASYNC \<or> fst general = Leave_ASYNC then Leave_ASYNC
          else Leave_undefined,
          snd general))"

text \<open>
  \<open>fire name args\<close> is the method the library builds for an event. It throws while a
  transition is pending and when the event is not allowed in the current state;
  otherwise it stores the transition, runs the leave callbacks, and then abandons the
  transition (\<open>false\<close>), leaves it pending (\<open>ASYNC\<close>) or commits it.

  \<open>fsm_transition p\<close> is the stored transition function: it clears the pending
  transition, sets the state, and runs the enter callback of the state entered:
  \<open>onactive\<close> emits \<open>active\<close>, \<open>onstarted\<close> fires \<open>activate\<close> with the camera. An
  exception in a callback is rethrown by the library's error handler.
\<close>

function fire :: "fsm_event \<Rightarrow> camera_ref option \<Rightarrow> scanner \<Rightarrow> fsm_result \<times> scanner"
  and fsm_transition :: "pending \<Rightarrow> scanner \<Rightarrow> fsm_result \<times> scanner" where
  "fire name args s =
     (case transition s of
        Some q \<Rightarrow> (Thrown (PENDING_TRANSITION name), s)
      | None \<Rightarrow>
          (case lookup_event events_table name (current s) of
             None \<Rightarrow> (Thrown (INVALID_TRANSITION name), s)
           | Some dst \<Rightarrow>
               if current s = dst then (NOTRANSITION, s)
               else
                 (case leaveState (current s) dst args
                         (s\<lparr>transition :=
                              Some \<lparr>p_name = name, p_from = current s, p_to = dst,
                                    p_args = args\<rparr>\<rparr>) of
                    (Leave_false, s1) \<Rightarrow> (CANCELLED, s1\<lparr>transition := None\<rparr>)
                  | (Leave_ASYNC, s1) \<Rightarrow> (PENDING, s1)
                  | (Leave_undefined, s1) \<Rightarrow>
                      (case transition s1 of
                         None \<Rightarrow> (Returned_undefined, s1)
                       | Some p \<Rightarrow> fsm_transition p s1))))"
| "fsm_transition p s =
     (let s1 = s\<lparr>transition := None, current := p_to p\<rparr>
      in if p_to p = Active then (SUCCEEDED, emit active_event s1)
         else if p_to p = Started then
           (case fire activate_event (p_args p) s1 of
              (Thrown e, s2) \<Rightarrow> (Thrown e, s2)
            | (r, s2) \<Rightarrow> (SUCCEEDED, s2))
         else (SUCCEEDED, s1))"
  by pat_completeness auto
termination
proof (relation "measure (\<lambda>x. case x of
          Inl (name, args, s) \<Rightarrow> (if name = activate_event then 0 else 2)
        | Inr (p, s) \<Rightarrow> 1)")
  show "wf (measure (\<lambda>x. case x of
          Inl (name, args, s) \<Rightarrow> (if name = activate_event then (0::nat) else 2)
        | Inr (p, s) \<Rightarrow> 1))" by simp
next
  fix name :: fsm_event and args s dst x s1 p
  assume l: "lookup_event events_table name (current s) = Some dst"
    and x: "(x, s1) = leaveState (current s) dst args
          (s\<lparr>transition := Some \<lparr>p_name = name, p_from = current s, p_to = dst, p_args = args\<rparr>\<rparr>)"
    and u: "x = Leave_undefined"
  have "name \<noteq> activate_event"
  proof
    assume n: "name = activate_event"
    with l have "dst = Active" by (simp add: events_table_def split: if_splits)
    moreover have "fst (leaveState (current s) Active args
        (s\<lparr>transition := Some \<lparr>p_name = name, p_from = current s, p_to = Active,
                               p_args = args\<rparr>\<rparr>)) \<noteq> Leave_undefined"
      by (simp add: leaveState_def onleavestate_def enableScan_def Let_def
          split: option.splits)
    ultimately show False using x u by (metis fst_conv)
  qed
  then show "(Inr (p, s1), Inl (name, args, s)) \<in> measure (\<lambda>x. case x of
          Inl (name, args, s) \<Rightarrow> (if name = activate_event then 0 else 2)
        | Inr (p, s) \<Rightarrow> 1)" by simp
next
  fix p :: pending and s :: scanner and x
  show "(Inl (activate_event, p_args p, x), Inr (p, s)) \<in> measure (\<lambda>x. case x of
          Inl (name, args, s) \<Rightarrow> (if name = activate_event then 0 else 2)
        | Inr (p, s) \<Rightarrow> 1)" by simp
qed

declare fire.simps [simp del] fsm_transition.simps [simp del]

text \<open>
  The options the constructor reads. \<open>opts.x || d\<close> takes \<open>d\<close> when \<open>x\<close> is missing or
  falsy (zero, \<open>false\<close>).
\<close>

record options =
  scanPeriod_option :: "nat option"
  refractoryPeriod_option :: "nat option"
  captureImage_option :: "bool option"
  backgroundScan_option :: "bool option"

definition or_number :: "nat option \<Rightarrow> nat \<Rightarrow> nat" where
  "or_number v d = (case v of None \<Rightarrow> d | Some n \<Rightarrow> if n = 0 then d else n)"

definition or_false :: "bool option \<Rightarrow> bool" where
  "or_false v = (case v of None \<Rightarrow> False | Some b \<Rightarrow> b)"

text \<open>
  The constructor, given the visibility of the page, the cameras that exist and the
  page's \<open>window.zxDecodeResult\<close>. The machine is created in \<open>stopped\<close> (its startup event meets no callback that acts), and
  the constructor ends by emitting \<open>inactive\<close>.
\<close>

definition new_Scanner ::
  "options \<Rightarrow> visibility \<Rightarrow> (camera_ref \<Rightarrow> camera) \<Rightarrow> string option \<Rightarrow> scanner" where
  "new_Scanner opts vis cams zx =
     emit inactive_event
       \<lparr>current = Stopped, transition = None, the_scan = None, the_camera = None,
        opt_scanPeriod = or_number (scanPeriod_option opts) 1,
        opt_refractoryPeriod = or_number (refractoryPeriod_option opts) (5 * 1000),
        opt_captureImage = or_false (captureImage_option opts),
        backgroundScan = or_false (backgroundScan_option opts),
        video_src = [], the_analyzer = new_Analyzer zx,
        page = vis, cameras = cams, stopped_tracks = [], media_requests = [],
        started_cameras = [], deferred_activations = 0, error_listeners = 0,
        events = []\<rparr>"

text \<open>
  The public methods return the exception they throw, if any, and the scanner as the
  call leaves it.
\<close>

definition thrown :: "fsm_result \<times> scanner \<Rightarrow> exception option \<times> scanner" where
  "thrown r = (case fst r of Thrown e \<Rightarrow> (Some e, snd r) | _ \<Rightarrow> (None, snd r))"

text \<open>\<open>this._fsm.stop(); this._fsm.start(camera);\<close> as \<open>start\<close> and \<open>set camera\<close> have it.\<close>

definition stop_then_start :: "camera_ref option \<Rightarrow> scanner \<Rightarrow> exception option \<times> scanner" where
  "stop_then_start camera s =
     (case fire stop_event None s of
        (Thrown e, s1) \<Rightarrow> (Some e, s1)
      | (r, s1) \<Rightarrow> thrown (fire start_event camera s1))"

definition Scanner_start :: "camera_ref option \<Rightarrow> scanner \<Rightarrow> exception option \<times> scanner" where
  "Scanner_start camera s =
     (if can start_event s then thrown (fire start_event camera s)
      else stop_then_start camera s)"

definition Scanner_stop :: "scanner \<Rightarrow> exception option \<times> scanner" where
  "Scanner_stop s = (if can stop_event s then thrown (fire stop_event None s) else (None, s))"

definition set_camera :: "camera_ref option \<Rightarrow> scanner \<Rightarrow> exception option \<times> scanner" where
  "set_camera camera s =
     (if current s = Stopped \<or> current s = Inactive then (None, s\<lparr>the_camera := camera\<rparr>)
      else stop_then_start camera s)"

text \<open>
  The handler given to \<open>Visibility.change\<close>, called with the new state: \<open>visible\<close> only
  schedules a callback; anything else deactivates at once unless \<open>backgroundScan\<close> is
  set. \<open>deferred_activate\<close> is the scheduled callback.
\<close>

definition visibility_change :: "visibility \<Rightarrow> scanner \<Rightarrow> exception option \<times> scanner" where
  "visibility_change v s =
     (if v = Visible
      then (None, s\<lparr>deferred_activations := deferred_activations s + 1\<rparr>)
      else if \<not> backgroundScan s \<and> can deactivate_event s
           then thrown (fire deactivate_event None s)
           else (None, s))"

definition deferred_activate :: "scanner \<Rightarrow> exception option \<times> scanner" where
  "deferred_activate s =
     (if can activate_event s then thrown (fire activate_event None s) else (None, s))"

text \<open>
  The callback \<open>_enableScan\<close> hands to \<open>camera.start\<close>, called with an error (\<open>Inl\<close>)
  or with a stream URL (\<open>Inr\<close>). With an error it cancels the pending transition and
  emits \<open>error\<close>, which throws the error when nobody listens for it; otherwise it sets
  \<open>video.src\<close>, creates and starts an ActiveScan on the shared analyzer and commits the
  pending transition.
\<close>

definition shared_analyzer :: "scanner \<Rightarrow> analyzer" where
  "shared_analyzer s = (case the_scan s of None \<Rightarrow> the_analyzer s | Some w \<Rightarrow> analyzer w)"

definition enableScan_callback :: "js_error + string \<Rightarrow> scanner \<Rightarrow> exception option \<times> scanner" where
  "enableScan_callback r s =
     (case r of
        Inl err \<Rightarrow>
          (case transition s of
             None \<Rightarrow> (Some TypeError, s)
           | Some p \<Rightarrow>
               (if error_listeners s = 0 then Some (Unhandled_error err) else None,
                emit (error_event err) (s\<lparr>transition := None\<rparr>)))
      | Inr streamUrl \<Rightarrow>
          (let s1 = s\<lparr>video_src := streamUrl,
                      the_analyzer := shared_analyzer s,
                      the_scan := Some (ActiveScan_start
                        (new_ActiveScan (shared_analyzer s) (opt_captureImage s)
                           (opt_scanPeriod s) (opt_refractoryPeriod s)))\<rparr>
           in case transition s1 of
                None \<Rightarrow> (Some TypeError, s1)
              | Some p \<Rightarrow> thrown (fsm_transition p s1)))"

text \<open>
  What can happen to a Scanner: a call of \<open>start\<close>, \<open>stop\<close> or the \<open>camera\<close> setter; a
  change of the page's visibility; a scheduled callback of the visibility handler
  running; the callback of \<open>_enableScan\<close> being called by a camera that follows the
  callback convention; the oldest \<open>getUserMedia\<close> request of a Camera settling; a
  listener for \<open>error\<close> being attached (\<open>on('error', ..)\<close>). The
  Camera of the sources has a \<open>start\<close> without parameters that returns a promise: when
  its request settles, the camera alone changes, and nothing calls the callback.
\<close>

datatype op =
    Start "camera_ref option"
  | Stop
  | Set_camera "camera_ref option"
  | Visibility "visibility"
  | Timeout
  | Camera_callback "js_error + string"
  | Media_settled bool "js_error + media_stream"
  | On_error

fun step :: "scanner \<Rightarrow> op \<Rightarrow> scanner" where
  "step s (Start camera) = snd (Scanner_start camera s)"
| "step s Stop = snd (Scanner_stop s)"
| "step s (Set_camera camera) = snd (set_camera camera s)"
| "step s (Visibility v) = snd (visibility_change v (s\<lparr>page := v\<rparr>))"
| "step s Timeout =
     (if deferred_activations s = 0 then s
      else snd (deferred_activate (s\<lparr>deferred_activations := deferred_activations s - 1\<rparr>)))"
| "step s (Camera_callback r) = snd (enableScan_callback r s)"
| "step s (Media_settled development outcome) =
     (case media_requests s of
        [] \<Rightarrow> s
      | c # rest \<Rightarrow>
          s\<lparr>media_requests := rest,
            cameras := (cameras s)(c := fst (Camera_start development outcome (cameras s c)))\<rparr>)"
| "step s On_error = s\<lparr>error_listeners := error_listeners s + 1\<rparr>"

definition run :: "scanner \<Rightarrow> op list \<Rightarrow> scanner" where
  "run s ops = foldl step s ops"

section \<open>Notions used in the properties\<close>

text \<open>
  An Analyzer whose capture geometry is that of a frame: the sensor is the whole frame
  at offset zero, the canvas has the frame's dimensions, the 2d context is there, and
  the image buffer is the address \<open>ZXing._resize\<close> returned; \<open>zx\<close> is the page's
  \<open>window.zxDecodeResult\<close>.
\<close>

definition full_frame_geometry :: "frame \<Rightarrow> string option \<Rightarrow> analyzer" where
  "full_frame_geometry f zx =
     \<lparr>imageBuffer = Some (resize_result f), sensorLeft = Some 0, sensorTop = Some 0,
      sensorWidth = Some (videoWidth f), sensorHeight = Some (videoHeight f),
      canvas_width = videoWidth f, canvas_height = videoHeight f,
      canvasContext = True, zxDecodeResult = zx\<rparr>"

text \<open>The first of every four bytes of some image data: the bytes at indices 0, 4, 8 ...\<close>

definition red_bytes :: "nat list \<Rightarrow> nat list" where
  "red_bytes data = nths data {i. 4 dvd i}"

definition analyze_all :: "analyzer \<Rightarrow> frame list \<Rightarrow> analyzer" where
  "analyze_all a fs = foldl (\<lambda>a f. fst (analyze f a)) a fs"

text \<open>The number of animation frames among some happenings.\<close>

fun is_Frame :: "scan_op \<Rightarrow> bool" where
  "is_Frame (Frame f) = True"
| "is_Frame x = False"

definition ticks :: "scan_op list \<Rightarrow> nat" where
  "ticks ops = length (filter is_Frame ops)"

text \<open>
  The frames among some happenings, in order, and those of them whose number (counted
  from 1) is a multiple of \<open>N\<close>.
\<close>

fun frames_of :: "scan_op list \<Rightarrow> frame list" where
  "frames_of [] = []"
| "frames_of (Frame f # xs) = f # frames_of xs"
| "frames_of (x # xs) = frames_of xs"

definition due_frames :: "nat \<Rightarrow> scan_op list \<Rightarrow> frame list" where
  "due_frames N ops = nths (frames_of ops) {i. N dvd i + 1}"

definition cadence_inv :: "nat \<Rightarrow> nat \<Rightarrow> session \<Rightarrow> bool" where
  "cadence_inv N k w \<longleftrightarrow>
     active w \<and> frames_requested w = 1 \<and> scanPeriod w = N
     \<and> frameCount w = k mod N \<and> attempts w = k div N"

text \<open>All \<open>scan\<close> emissions of a session: those delivered, then those still queued.\<close>

definition scan_events :: "session \<Rightarrow> emitted list" where
  "scan_events w = emitted w @ map (\<lambda>(r, i). scan_event r i) (emissions_queued w)"

text \<open>
  The result a happening hands to the callback of \<open>scan\<close>, if any: that of a frame that
  runs, is due by the cadence and decodes something.
\<close>

definition delivered :: "session \<Rightarrow> scan_op \<Rightarrow> string option" where
  "delivered w x =
     (case x of
        Frame f \<Rightarrow>
          if frames_requested w = 0 \<or> \<not> active w \<or> frameCount w + 1 \<noteq> scanPeriod w
          then None
          else callback_arg (snd (analyze f (analyzer w)))
      | _ \<Rightarrow> None)"

fun decodes_only :: "string \<Rightarrow> session \<Rightarrow> scan_op list \<Rightarrow> bool" where
  "decodes_only P w [] = True"
| "decodes_only P w (x # xs) =
     ((delivered w x = None \<or> delivered w x = Some P) \<and> decodes_only P (scan_step w x) xs)"

text \<open>The \<open>active\<close> and \<open>inactive\<close> events among those emitted.\<close>

definition signals :: "emitted list \<Rightarrow> emitted list" where
  "signals es = filter (\<lambda>e. e = active_event \<or> e = inactive_event) es"

text \<open>
  The invariant of the Scanner: the signals start with \<open>inactive\<close>, no two neighbours are
  equal, the last is \<open>active\<close> exactly in state \<open>Active\<close>, and a pending transition leads
  into \<open>Active\<close> from another state.
\<close>

definition ok :: "emitted list \<Rightarrow> fsm_state \<Rightarrow> pending option \<Rightarrow> bool" where
  "ok es cur tr \<longleftrightarrow>
     signals es \<noteq> [] \<and> distinct_adj (signals es)
     \<and> hd (signals es) = inactive_event
     \<and> (last (signals es) = active_event) = (cur = Active)
     \<and> (case tr of None \<Rightarrow> True | Some p \<Rightarrow> p_to p = Active \<and> cur \<noteq> Active)"

definition consistent :: "scanner \<Rightarrow> bool" where
  "consistent s \<longleftrightarrow> ok (events s) (current s) (transition s)"



text \<open>Inputs for the examples.\<close>

definition qr_frame :: "string \<Rightarrow> frame" where
  "qr_frame r =
     \<lparr>videoWidth = 640, videoHeight = 480, resize_result = 4096,
      pixels = [10, 20, 30, 255, 40, 50, 60, 255],
      decode_calls = [(0, r)], decode_err = 0, dataURL = ''data:image/webp''\<rparr>"

definition no_frame :: frame where
  "no_frame =
     \<lparr>videoWidth = 0, videoHeight = 0, resize_result = 4096, pixels = [],
      decode_calls = [], decode_err = 1, dataURL = []\<rparr>"

definition unallocated_frame :: frame where
  "unallocated_frame =
     \<lparr>videoWidth = 640, videoHeight = 480, resize_result = 0,
      pixels = [10, 20, 30, 255, 40, 50, 60, 255],
      decode_calls = [(0, ''A'')], decode_err = 0, dataURL = ''data:image/webp''\<rparr>"

definition scanning :: session where
  "scanning = ActiveScan_start (new_ActiveScan (new_Analyzer None) False 1 5000)"

definition focused :: session where
  "focused = scan_run scanning [Frame (qr_frame ''A'')]"

definition scanning_long :: session where
  "scanning_long = ActiveScan_start (new_ActiveScan (new_Analyzer None) False 1 (2 ^ 31))"

definition video_stream :: media_stream where
  "video_stream = \<lparr>videoTracks = [1, 2], audioTracks = []\<rparr>"

definition back_camera :: camera where
  "back_camera = new_Camera ''7f3a'' ''Back Camera''"

definition denied :: js_error where
  "denied = Error ''NotAllowedError'' ''Permission denied''"

text \<open>
  A Scanner with default options on a visible page; the same after \<open>start(camera)\<close>,
  with the activation pending; after the camera obtained its stream and called back;
  after the page was hidden; after it became visible again; and a Scanner created with
  \<open>backgroundScan\<close>.
\<close>

definition fresh :: scanner where
  "fresh =
     new_Scanner
       \<lparr>scanPeriod_option = None, refractoryPeriod_option = None,
        captureImage_option = None, backgroundScan_option = None\<rparr>
       Visible (\<lambda>r. back_camera) None"

definition awaiting :: scanner where
  "awaiting = step fresh (Start (Some 0))"

definition live :: scanner where
  "live =
     run awaiting [Media_settled False (Inr video_stream), Camera_callback (Inr ''blob:stream'')]"

definition paused :: scanner where
  "paused = step live (Visibility Hidden)"

definition resumed :: scanner where
  "resumed = step paused (Visibility Visible)"

text \<open>
  From there: the scheduled activation runs and the camera obtains a stream again; the
  \<open>camera\<close> property is assigned while that activation is pending; the camera calls
  back.
\<close>

definition reacquired :: scanner where
  "reacquired = run resumed [Timeout, Media_settled False (Inr video_stream)]"

definition swapped :: scanner where
  "swapped = run reacquired [Set_camera (Some 1), Camera_callback (Inr ''blob:stream'')]"

text \<open>The page is hidden while the first activation is pending; then the camera calls back.\<close>

definition overtaken :: scanner where
  "overtaken = run awaiting [Visibility Hidden, Camera_callback (Inr ''blob:stream'')]"


section \<open>Properties of Camera\<close>

text \<open>
  C9. \<open>Camera.stop()\<close> is idempotent: a second call in succession leaves the camera as
  the first call left it and stops no track; a call when no stream is held changes
  nothing and stops nothing; a call when a stream is held stops every video track of
  that stream and clears the stream reference.
\<close>

theorem Camera_stop_idempotent:
  "fst (Camera_stop (fst (Camera_stop c))) = fst (Camera_stop c)
   \<and> snd (Camera_stop (fst (Camera_stop c))) = []
   \<and> (stream c = None \<longrightarrow> Camera_stop c = (c, []))
   \<and> (\<forall>st. stream c = Some st \<longrightarrow>
         stream (fst (Camera_stop c)) = None
         \<and> snd (Camera_stop c) = videoTracks st
         \<and> cam_id (fst (Camera_stop c)) = cam_id c
         \<and> cam_name (fst (Camera_stop c)) = cam_name c)"
  by (cases "stream c") (simp_all add: Camera_stop_def)

theorem Camera_stop_idempotent_witness:
  "stream \<lparr>cam_id = ''a'', cam_name = ''Back'',
           stream = Some \<lparr>videoTracks = [1, 2], audioTracks = []\<rparr>\<rparr>
     = Some \<lparr>videoTracks = [1, 2], audioTracks = []\<rparr>
   \<and> Camera_stop \<lparr>cam_id = ''a'', cam_name = ''Back'',
                   stream = Some \<lparr>videoTracks = [1, 2], audioTracks = []\<rparr>\<rparr>
     = (\<lparr>cam_id = ''a'', cam_name = ''Back'', stream = None\<rparr>, [1, 2])
   \<and> Camera_stop (new_Camera ''a'' ''Back'') = (new_Camera ''a'' ''Back'', [])"
  using Camera_stop_idempotent
    [of "\<lparr>cam_id = ''a'', cam_name = ''Back'',
          stream = Some \<lparr>videoTracks = [1, 2], audioTracks = []\<rparr>\<rparr>"]
    Camera_stop_idempotent [of "new_Camera ''a'' ''Back''"]
  by (simp add: Camera_stop_def new_Camera_def)

section \<open>Properties of Analyzer\<close>

lemma no_fourth: "i < 3 \<Longrightarrow> \<not> (4::nat) dvd Suc i"
  by presburger

lemma nths_short: "length xs \<le> 3 \<Longrightarrow> nths xs {j. 4 dvd Suc j} = []"
proof -
  assume l: "length xs \<le> 3"
  have "\<And>i. i < length xs \<Longrightarrow> i \<notin> {j. 4 dvd Suc j}"
    using l no_fourth by simp
  then have "set (nths xs {j. 4 dvd Suc j}) = {}"
    unfolding set_nths by blast
  then show ?thesis by simp
qed

lemma every_fourth_tail: "nths bs {j. 4 dvd Suc j} = nths (drop 3 bs) {i. 4 dvd i}"
proof (cases "3 \<le> length bs")
  case True
  have "nths (take 3 bs @ drop 3 bs) {j. 4 dvd Suc j}
      = nths (take 3 bs) {j. 4 dvd Suc j}
        @ nths (drop 3 bs) {j. j + length (take 3 bs) \<in> {j. 4 dvd Suc j}}"
    by (rule nths_append)
  moreover have "nths (take 3 bs) {j. 4 dvd Suc j} = []"
    by (rule nths_short) simp
  moreover have "length (take 3 bs) = 3" using True by simp
  moreover have "{j. j + 3 \<in> {j. 4 dvd Suc j}} = {i. (4::nat) dvd i}"
    by auto
  ultimately show ?thesis by simp
next
  case False
  then have "nths bs {j. 4 dvd Suc j} = []" by (intro nths_short) simp
  with False show ?thesis by simp
qed

lemma every_fourth_red_bytes: "every_fourth xs = red_bytes xs"
  unfolding red_bytes_def
  by (induction xs rule: every_fourth.induct) (simp_all add: nths_Cons every_fourth_tail)

lemma copy_pixels_zip:
  "copy_pixels buf data = zip [buf ..< buf + length (red_bytes data)] (red_bytes data)"
proof -
  have "[buf ..< buf + length (red_bytes data)]
      = map (\<lambda>j. buf + j) [0 ..< length (red_bytes data)]"
    by (simp add: map_add_upt add.commute)
  then show ?thesis
    by (simp add: copy_pixels_def every_fourth_red_bytes zip_map1)
qed

lemma decodeCallback_more:
  "\<forall>c\<in>set cs. fst c \<noteq> 0 \<Longrightarrow>
     foldl decodeCallback (Some r) cs = Some (r @ concat (map snd cs))"
  by (induction cs arbitrary: r) (simp_all add: decodeCallback_def)

lemma analyze_qr_first:
  "imageBuffer a = None \<Longrightarrow>
     analyze (qr_frame r) a = (establish_geometry (qr_frame r) a, nothing_done)"
  by (simp add: analyze_def qr_frame_def)

lemma analyze_qr_next:
  "imageBuffer a = Some 4096 \<Longrightarrow>
     fst (analyze (qr_frame r) a) = a\<lparr>zxDecodeResult := Some r\<rparr>
     \<and> callback_arg (snd (analyze (qr_frame r) a)) = Some r"
  by (simp add: analyze_def qr_frame_def decode_frame_def decodeCallback_def Let_def)

lemma geometry_buffer: "imageBuffer (establish_geometry (qr_frame r) a) = Some 4096"
  by (simp add: establish_geometry_def qr_frame_def)

lemma analyze_no_frame: "videoWidth g = 0 \<Longrightarrow> analyze g a = (a, nothing_done)"
  by (simp add: analyze_def)

lemma analyze_all_no_frames:
  "\<forall>g\<in>set gs. videoWidth g = 0 \<Longrightarrow> analyze_all a gs = a"
  by (induction gs arbitrary: a) (simp_all add: analyze_all_def analyze_no_frame)

lemma analyze_establishes:
  assumes "videoWidth f \<noteq> 0"
  shows "analyze f (new_Analyzer zx)
     = (full_frame_geometry f zx,
        \<lparr>drawn = False, heap_writes = [], decoder_invoked = False, callback_arg = None\<rparr>)"
  using assms
  by (simp add: analyze_def new_Analyzer_def establish_geometry_def full_frame_geometry_def
      nothing_done_def)

lemma analyze_decodes:
  assumes "videoWidth f' \<noteq> 0" and "resize_result f \<noteq> 0"
  shows "analyze f' (full_frame_geometry f zx)
     = ((full_frame_geometry f zx)
          \<lparr>zxDecodeResult := foldl decodeCallback zx (decode_calls f')\<rparr>,
        \<lparr>drawn = True,
         heap_writes = zip [resize_result f ..< resize_result f + length (red_bytes (pixels f'))]
                         (red_bytes (pixels f')),
         decoder_invoked = True,
         callback_arg = (if decode_err f' \<noteq> 0 then None
                         else foldl decodeCallback zx (decode_calls f'))\<rparr>)"
  using assms
  by (simp add: analyze_def full_frame_geometry_def decode_frame_def Let_def copy_pixels_zip)

lemma analyze_establishes_again:
  assumes "videoWidth f' \<noteq> 0" and "resize_result f = 0"
  shows "analyze f' (full_frame_geometry f zx)
     = (full_frame_geometry f' zx,
        \<lparr>drawn = False, heap_writes = [], decoder_invoked = False, callback_arg = None\<rparr>)"
  using assms
  by (simp add: analyze_def full_frame_geometry_def establish_geometry_def nothing_done_def)

text \<open>
  C10, as amended. Attempts made while the video has no frame (\<open>videoWidth\<close> zero)
  change nothing. The first attempt with a usable frame only establishes the capture
  geometry (the sensor is the whole frame at offset zero, the canvas takes the frame's
  dimensions, the 2d context is obtained, the image buffer is the address
  \<open>ZXing._resize\<close> returns): nothing is drawn, no pixel is copied, the decoder is not
  invoked and the callback is not called, so that frame is never decoded. If the address
  is not null, the next attempt with a usable frame reuses that geometry unchanged:
  it draws the frame, writes the first of every four bytes of the image data to the
  buffer established before, in order, invokes the decoder, and hands the decoded text
  to the callback unless the decoder reports an error. If the address is null, the next
  attempt does not decode either: it establishes the geometry again, from its own frame.
\<close>

theorem analyze_first_usable_frame:
  assumes "\<forall>g\<in>set gs. videoWidth g = 0" and "videoWidth f \<noteq> 0" and "videoWidth f' \<noteq> 0"
  shows "analyze_all (new_Analyzer zx) gs = new_Analyzer zx
    \<and> analyze f (analyze_all (new_Analyzer zx) gs)
        = (full_frame_geometry f zx,
           \<lparr>drawn = False, heap_writes = [], decoder_invoked = False, callback_arg = None\<rparr>)
    \<and> (resize_result f \<noteq> 0 \<longrightarrow>
          fst (analyze f' (full_frame_geometry f zx))
            = (full_frame_geometry f zx)
                \<lparr>zxDecodeResult := zxDecodeResult (fst (analyze f' (full_frame_geometry f zx)))\<rparr>
          \<and> drawn (snd (analyze f' (full_frame_geometry f zx)))
          \<and> decoder_invoked (snd (analyze f' (full_frame_geometry f zx)))
          \<and> heap_writes (snd (analyze f' (full_frame_geometry f zx)))
              = zip [resize_result f ..< resize_result f + length (red_bytes (pixels f'))]
                    (red_bytes (pixels f'))
          \<and> callback_arg (snd (analyze f' (full_frame_geometry f zx)))
              = (if decode_err f' \<noteq> 0 then None
                 else zxDecodeResult (fst (analyze f' (full_frame_geometry f zx))))
          \<and> (decode_calls f' = [] \<longrightarrow>
                zxDecodeResult (fst (analyze f' (full_frame_geometry f zx))) = zx)
          \<and> (\<forall>r cs. decode_calls f' = (0, r) # cs \<and> (\<forall>c\<in>set cs. fst c \<noteq> 0) \<longrightarrow>
                zxDecodeResult (fst (analyze f' (full_frame_geometry f zx)))
                  = Some (r @ concat (map snd cs))))
    \<and> (resize_result f = 0 \<longrightarrow>
          analyze f' (full_frame_geometry f zx)
            = (full_frame_geometry f' zx,
               \<lparr>drawn = False, heap_writes = [], decoder_invoked = False,
                callback_arg = None\<rparr>))"
proof -
  have a0: "analyze_all (new_Analyzer zx) gs = new_Analyzer zx"
    using assms(1) by (rule analyze_all_no_frames)
  have first: "analyze f (analyze_all (new_Analyzer zx) gs)
        = (full_frame_geometry f zx,
           \<lparr>drawn = False, heap_writes = [], decoder_invoked = False, callback_arg = None\<rparr>)"
    unfolding a0 using assms(2) by (rule analyze_establishes)
  have calls: "\<forall>r cs. decode_calls f' = (0, r) # cs \<and> (\<forall>c\<in>set cs. fst c \<noteq> 0) \<longrightarrow>
      foldl decodeCallback zx (decode_calls f') = Some (r @ concat (map snd cs))"
    by (auto simp: decodeCallback_def decodeCallback_more)
  have nxt: "resize_result f \<noteq> 0 \<longrightarrow>
          fst (analyze f' (full_frame_geometry f zx))
            = (full_frame_geometry f zx)
                \<lparr>zxDecodeResult := zxDecodeResult (fst (analyze f' (full_frame_geometry f zx)))\<rparr>
          \<and> drawn (snd (analyze f' (full_frame_geometry f zx)))
          \<and> decoder_invoked (snd (analyze f' (full_frame_geometry f zx)))
          \<and> heap_writes (snd (analyze f' (full_frame_geometry f zx)))
              = zip [resize_result f ..< resize_result f + length (red_bytes (pixels f'))]
                    (red_bytes (pixels f'))
          \<and> callback_arg (snd (analyze f' (full_frame_geometry f zx)))
              = (if decode_err f' \<noteq> 0 then None
                 else zxDecodeResult (fst (analyze f' (full_frame_geometry f zx))))
          \<and> (decode_calls f' = [] \<longrightarrow>
                zxDecodeResult (fst (analyze f' (full_frame_geometry f zx))) = zx)
          \<and> (\<forall>r cs. decode_calls f' = (0, r) # cs \<and> (\<forall>c\<in>set cs. fst c \<noteq> 0) \<longrightarrow>
                zxDecodeResult (fst (analyze f' (full_frame_geometry f zx)))
                  = Some (r @ concat (map snd cs)))"
  proof
    assume r: "resize_result f \<noteq> 0"
    show "fst (analyze f' (full_frame_geometry f zx))
            = (full_frame_geometry f zx)
                \<lparr>zxDecodeResult := zxDecodeResult (fst (analyze f' (full_frame_geometry f zx)))\<rparr>
          \<and> drawn (snd (analyze f' (full_frame_geometry f zx)))
          \<and> decoder_invoked (snd (analyze f' (full_frame_geometry f zx)))
          \<and> heap_writes (snd (analyze f' (full_frame_geometry f zx)))
              = zip [resize_result f ..< resize_result f + length (red_bytes (pixels f'))]
                    (red_bytes (pixels f'))
          \<and> callback_arg (snd (analyze f' (full_frame_geometry f zx)))
              = (if decode_err f' \<noteq> 0 then None
                 else zxDecodeResult (fst (analyze f' (full_frame_geometry f zx))))
          \<and> (decode_calls f' = [] \<longrightarrow>
                zxDecodeResult (fst (analyze f' (full_frame_geometry f zx))) = zx)
          \<and> (\<forall>r cs. decode_calls f' = (0, r) # cs \<and> (\<forall>c\<in>set cs. fst c \<noteq> 0) \<longrightarrow>
                zxDecodeResult (fst (analyze f' (full_frame_geometry f zx)))
                  = Some (r @ concat (map snd cs)))"
      unfolding analyze_decodes [OF assms(3) r] using calls by simp
  qed
  have again: "resize_result f = 0 \<longrightarrow>
          analyze f' (full_frame_geometry f zx)
            = (full_frame_geometry f' zx,
               \<lparr>drawn = False, heap_writes = [], decoder_invoked = False,
                callback_arg = None\<rparr>)"
    using analyze_establishes_again [OF assms(3)] by blast
  show ?thesis using a0 first nxt again by (intro conjI)
qed


theorem analyze_first_usable_frame_witness:
  "videoWidth no_frame = 0
   \<and> videoWidth (qr_frame ''A'') \<noteq> 0 \<and> videoWidth (qr_frame ''B'') \<noteq> 0
   \<and> resize_result (qr_frame ''A'') \<noteq> 0
   \<and> analyze (qr_frame ''A'') (analyze_all (new_Analyzer None) [no_frame, no_frame])
       = (\<lparr>imageBuffer = Some 4096, sensorLeft = Some 0, sensorTop = Some 0,
           sensorWidth = Some 640, sensorHeight = Some 480, canvas_width = 640,
           canvas_height = 480, canvasContext = True, zxDecodeResult = None\<rparr>,
          \<lparr>drawn = False, heap_writes = [], decoder_invoked = False, callback_arg = None\<rparr>)
   \<and> analyze (qr_frame ''B'') (full_frame_geometry (qr_frame ''A'') None)
       = (\<lparr>imageBuffer = Some 4096, sensorLeft = Some 0, sensorTop = Some 0,
           sensorWidth = Some 640, sensorHeight = Some 480, canvas_width = 640,
           canvas_height = 480, canvasContext = True, zxDecodeResult = Some ''B''\<rparr>,
          \<lparr>drawn = True, heap_writes = [(4096, 10), (4097, 40)], decoder_invoked = True,
           callback_arg = Some ''B''\<rparr>)
   \<and> videoWidth unallocated_frame \<noteq> 0 \<and> resize_result unallocated_frame = 0
   \<and> analyze (qr_frame ''B'') (full_frame_geometry unallocated_frame None)
       = (full_frame_geometry (qr_frame ''B'') None,
          \<lparr>drawn = False, heap_writes = [], decoder_invoked = False, callback_arg = None\<rparr>)"
proof -
  let ?a = "qr_frame ''A''"
  let ?b = "qr_frame ''B''"
  let ?g = "full_frame_geometry ?a None"
  have h: "\<forall>g\<in>set [no_frame, no_frame]. videoWidth g = 0" by (simp add: no_frame_def)
  have k: "videoWidth ?a \<noteq> 0" by (simp add: qr_frame_def)
  have k': "videoWidth ?b \<noteq> 0" by (simp add: qr_frame_def)
  have r: "resize_result ?a \<noteq> 0" by (simp add: qr_frame_def)
  have g: "?g = \<lparr>imageBuffer = Some 4096, sensorLeft = Some 0, sensorTop = Some 0,
           sensorWidth = Some 640, sensorHeight = Some 480, canvas_width = 640,
           canvas_height = 480, canvasContext = True, zxDecodeResult = None\<rparr>"
    by (simp add: full_frame_geometry_def qr_frame_def)
  have red: "red_bytes (pixels ?b) = [10, 40]"
    by (simp add: every_fourth_red_bytes [symmetric] qr_frame_def)
  have w: "zip [resize_result ?a ..< resize_result ?a + length (red_bytes (pixels ?b))]
      (red_bytes (pixels ?b)) = [(4096, 10), (4097, 40)]"
    unfolding red by (simp add: qr_frame_def upt_rec)
  have d: "decode_calls ?b = (0, ''B'') # [] \<and> (\<forall>c\<in>set []. fst c \<noteq> (0::nat))"
    "decode_err ?b = 0"
    by (simp_all add: qr_frame_def)
  note t = analyze_first_usable_frame [OF h k k', of None]
  have first: "analyze ?a (analyze_all (new_Analyzer None) [no_frame, no_frame])
        = (?g, \<lparr>drawn = False, heap_writes = [], decoder_invoked = False,
                 callback_arg = None\<rparr>)"
    using t by blast
  have fs: "fst (analyze ?b ?g) = ?g\<lparr>zxDecodeResult := zxDecodeResult (fst (analyze ?b ?g))\<rparr>"
    using t r by blast
  have dr: "drawn (snd (analyze ?b ?g))"
    using t r by blast
  have di: "decoder_invoked (snd (analyze ?b ?g))"
    using t r by blast
  have hw: "heap_writes (snd (analyze ?b ?g))
        = zip [resize_result ?a ..< resize_result ?a + length (red_bytes (pixels ?b))]
            (red_bytes (pixels ?b))"
    using t r by blast
  have cb0: "callback_arg (snd (analyze ?b ?g))
        = (if decode_err ?b \<noteq> 0 then None else zxDecodeResult (fst (analyze ?b ?g)))"
    using t r by blast
  have cb: "callback_arg (snd (analyze ?b ?g)) = zxDecodeResult (fst (analyze ?b ?g))"
    using cb0 d(2) by simp
  have zx: "zxDecodeResult (fst (analyze ?b ?g)) = Some ''B''"
    using t r d(1) by fastforce
  have st: "fst (analyze ?b ?g) = \<lparr>imageBuffer = Some 4096, sensorLeft = Some 0,
           sensorTop = Some 0, sensorWidth = Some 640, sensorHeight = Some 480,
           canvas_width = 640, canvas_height = 480, canvasContext = True,
           zxDecodeResult = Some ''B''\<rparr>"
  proof -
    have "fst (analyze ?b ?g) = ?g\<lparr>zxDecodeResult := Some ''B''\<rparr>"
      using fs unfolding zx .
    then show ?thesis by (simp add: g)
  qed
  have ob: "snd (analyze ?b ?g)
      = \<lparr>drawn = True, heap_writes = [(4096, 10), (4097, 40)], decoder_invoked = True,
         callback_arg = Some ''B''\<rparr>"
    using dr di hw cb unfolding zx w by (cases "snd (analyze ?b ?g)") simp
  have nxt: "analyze ?b ?g
       = (\<lparr>imageBuffer = Some 4096, sensorLeft = Some 0, sensorTop = Some 0,
           sensorWidth = Some 640, sensorHeight = Some 480, canvas_width = 640,
           canvas_height = 480, canvasContext = True, zxDecodeResult = Some ''B''\<rparr>,
          \<lparr>drawn = True, heap_writes = [(4096, 10), (4097, 40)], decoder_invoked = True,
           callback_arg = Some ''B''\<rparr>)"
    using st ob by (simp add: prod_eq_iff)
  have ku: "videoWidth unallocated_frame \<noteq> 0" by (simp add: unallocated_frame_def)
  have ru: "resize_result unallocated_frame = 0" by (simp add: unallocated_frame_def)
  have again: "analyze ?b (full_frame_geometry unallocated_frame None)
       = (full_frame_geometry ?b None,
          \<lparr>drawn = False, heap_writes = [], decoder_invoked = False, callback_arg = None\<rparr>)"
    using analyze_first_usable_frame [OF h ku k', of None] ru by blast
  have n: "videoWidth no_frame = 0" by (simp add: no_frame_def)
  show ?thesis using n k k' r first nxt ku ru again unfolding g by (intro conjI)
qed

text \<open>
  C10 as stated fails when \<open>ZXing._resize\<close> returns the null address for the first usable
  frame: \<open>imageBuffer\<close> is then 0, which \<open>analyze\<close> reads as not established. The next
  attempt, on a frame that carries the code \<open>B\<close>, draws nothing, does not invoke the
  decoder and does not call the callback: it establishes the geometry a second time
  instead of reusing it.
\<close>

theorem analyze_null_buffer_counterexample:
  "videoWidth unallocated_frame \<noteq> 0
   \<and> fst (analyze unallocated_frame (new_Analyzer None))
       = \<lparr>imageBuffer = Some 0, sensorLeft = Some 0, sensorTop = Some 0,
          sensorWidth = Some 640, sensorHeight = Some 480, canvas_width = 640,
          canvas_height = 480, canvasContext = True, zxDecodeResult = None\<rparr>
   \<and> analyze (qr_frame ''B'') (fst (analyze unallocated_frame (new_Analyzer None)))
       = (\<lparr>imageBuffer = Some 4096, sensorLeft = Some 0, sensorTop = Some 0,
           sensorWidth = Some 640, sensorHeight = Some 480, canvas_width = 640,
           canvas_height = 480, canvasContext = True, zxDecodeResult = None\<rparr>,
          \<lparr>drawn = False, heap_writes = [], decoder_invoked = False, callback_arg = None\<rparr>)"
  by (simp add: analyze_def new_Analyzer_def establish_geometry_def unallocated_frame_def
      qr_frame_def nothing_done_def)

section \<open>Properties of ActiveScan\<close>

lemma scan_run_Nil: "scan_run w [] = w"
  by (simp add: scan_run_def)

lemma scan_run_Cons: "scan_run w (x # xs) = scan_run (scan_step w x) xs"
  by (simp add: scan_run_def)

lemma Frame_qr_first:
  assumes "active w" "frames_requested w = 1" "scanPeriod w = 1" "frameCount w = 0"
    "imageBuffer (analyzer w) = None"
  shows "scan_step w (Frame (qr_frame r))
     = w\<lparr>frames_requested := 1, frameCount := 0,
         analyzer := establish_geometry (qr_frame r) (analyzer w),
         attempts := Suc (attempts w)\<rparr>"
  using assms by (simp add: ActiveScan_scan_def Let_def analyze_qr_first nothing_done_def)

lemma Frame_qr_next:
  assumes "active w" "frames_requested w = 1" "scanPeriod w = 1" "frameCount w = 0"
    "imageBuffer (analyzer w) = Some 4096"
  shows "scan_step w (Frame (qr_frame r))
     = on_result r ''data:image/webp''
         (w\<lparr>frames_requested := 1, frameCount := 0,
            analyzer := (analyzer w)\<lparr>zxDecodeResult := Some r\<rparr>,
            attempts := Suc (attempts w)\<rparr>)"
  using assms by (simp add: ActiveScan_scan_def Let_def analyze_qr_next) (simp add: qr_frame_def)

lemma scanning_fields:
  "active scanning" "frames_requested scanning = 1" "scanPeriod scanning = 1"
  "frameCount scanning = 0" "imageBuffer (analyzer scanning) = None"
  "emitted scanning = []" "emissions_queued scanning = []" "lastResult scanning = None"
  "clock scanning = 0" "refractoryPeriod scanning = 5000" "captureImage scanning = False"
  "refractoryTimeout scanning = None"
  by (simp_all add: scanning_def ActiveScan_start_def new_ActiveScan_def new_Analyzer_def)

lemma setTimeout_delay_small: "ms < 2 ^ 31 \<Longrightarrow> setTimeout_delay ms = ms"
  by (simp add: setTimeout_delay_def Let_def)

lemma setTimeout_delay_values:
  "setTimeout_delay 5000 = 5000"
  "setTimeout_delay (2 ^ 31) = 0"
  "setTimeout_delay (refractoryPeriod scanning_long) = 0"
  by (simp_all add: setTimeout_delay_def Let_def scanning_long_def ActiveScan_start_def
      new_ActiveScan_def)

lemma scanning_long_fields:
  "active scanning_long" "frames_requested scanning_long = 1" "scanPeriod scanning_long = 1"
  "frameCount scanning_long = 0" "imageBuffer (analyzer scanning_long) = None"
  "emitted scanning_long = []" "emissions_queued scanning_long = []"
  "lastResult scanning_long = None" "clock scanning_long = 0"
  "captureImage scanning_long = False" "refractoryTimeout scanning_long = None"
  by (simp_all add: scanning_long_def ActiveScan_start_def new_ActiveScan_def new_Analyzer_def)

lemmas run_simps = scan_run_Nil scan_run_Cons Frame_qr_first Frame_qr_next scanning_fields
  geometry_buffer on_result_def ActiveScan_stop_def setTimeout_delay_values

lemma on_result_fields:
  "active (on_result r u w) = active w"
  "scanPeriod (on_result r u w) = scanPeriod w"
  "frameCount (on_result r u w) = frameCount w"
  "frames_requested (on_result r u w) = frames_requested w"
  "attempts (on_result r u w) = attempts w"
  "analyzer (on_result r u w) = analyzer w"
  by (simp_all add: on_result_def)

lemma Frame_skipped:
  assumes "active w" and "frames_requested w = 1" and "Suc (frameCount w) \<noteq> scanPeriod w"
  shows "scan_step w (Frame f) = w\<lparr>frameCount := frameCount w + 1\<rparr>"
  using assms by (intro session.equality) (simp_all add: ActiveScan_scan_def Let_def)

lemma Frame_due:
  assumes "active w" and "frames_requested w = 1" and "Suc (frameCount w) = scanPeriod w"
  shows "scan_step w (Frame f)
     = (case callback_arg (snd (analyze f (analyzer w))) of
          None \<Rightarrow>
            w\<lparr>frameCount := 0, analyzer := fst (analyze f (analyzer w)),
              attempts := attempts w + 1\<rparr>
        | Some r \<Rightarrow>
            on_result r (dataURL f)
              (w\<lparr>frameCount := 0, analyzer := fst (analyze f (analyzer w)),
                 attempts := attempts w + 1\<rparr>))"
proof -
  have e: "w\<lparr>frames_requested := Suc 0, frameCount := 0,
             analyzer := fst (analyze f (analyzer w)), attempts := Suc (attempts w)\<rparr>
      = w\<lparr>frameCount := 0, analyzer := fst (analyze f (analyzer w)),
          attempts := attempts w + 1\<rparr>"
    using assms(2) by (intro session.equality) simp_all
  have step: "scan_step w (Frame f)
     = (case callback_arg (snd (analyze f (analyzer w))) of
          None \<Rightarrow>
            w\<lparr>frames_requested := Suc 0, frameCount := 0,
              analyzer := fst (analyze f (analyzer w)), attempts := Suc (attempts w)\<rparr>
        | Some r \<Rightarrow>
            on_result r (dataURL f)
              (w\<lparr>frames_requested := Suc 0, frameCount := 0,
                 analyzer := fst (analyze f (analyzer w)), attempts := Suc (attempts w)\<rparr>))"
    using assms
    by (cases "callback_arg (snd (analyze f (analyzer w)))")
      (simp_all add: ActiveScan_scan_def Let_def)
  show ?thesis unfolding step e by (rule refl)
qed

lemma dvd_three:
  "\<not> (3::nat) dvd Suc 0" "\<not> (3::nat) dvd Suc (Suc 0)" "(3::nat) dvd Suc (Suc (Suc 0))"
  "\<not> (3::nat) dvd Suc (Suc (Suc (Suc 0)))" "\<not> (3::nat) dvd Suc (Suc (Suc (Suc (Suc 0))))"
  "(3::nat) dvd Suc (Suc (Suc (Suc (Suc (Suc 0)))))"
  by presburger+

lemma due_iff: "0 < N \<Longrightarrow> (Suc (k mod N) = N) = (N dvd Suc k)"
  by (simp add: dvd_eq_mod_eq_0 mod_Suc)

lemma cadence_inv_Frame:
  assumes "0 < N" "cadence_inv N k w"
  shows "cadence_inv N (Suc k) (scan_step w (Frame f))"
proof (cases "Suc (k mod N) = N")
  case True
  with assms show ?thesis
    by (simp add: cadence_inv_def ActiveScan_scan_def Let_def on_result_fields
        mod_Suc div_Suc split: option.splits)
next
  case False
  with assms show ?thesis
    by (simp add: cadence_inv_def ActiveScan_scan_def Let_def mod_Suc div_Suc)
qed

lemma cadence_inv_other:
  assumes "cadence_inv N k w" "\<not> is_Frame x" "x \<noteq> StopScan"
  shows "cadence_inv N k (scan_step w x)"
  using assms by (cases x) (auto simp: cadence_inv_def split: option.splits list.splits)

lemma analyzer_other:
  assumes "\<not> is_Frame x"
  shows "analyzer (scan_step w x) = analyzer w"
  using assms by (cases x) (auto simp: ActiveScan_stop_def split: option.splits list.splits)

lemma cadence_inv_run:
  assumes "0 < N" "cadence_inv N 0 w" "StopScan \<notin> set ops"
  shows "cadence_inv N (ticks ops) (scan_run w ops)"
  using assms(3)
proof (induction ops rule: rev_induct)
  case Nil
  with assms(2) show ?case by (simp add: scan_run_def ticks_def)
next
  case (snoc x xs)
  then have ih: "cadence_inv N (ticks xs) (scan_run w xs)" by simp
  have run: "scan_run w (xs @ [x]) = scan_step (scan_run w xs) x"
    by (simp add: scan_run_def)
  show ?case
  proof (cases "is_Frame x")
    case True
    then obtain f where x: "x = Frame f" by (cases x) auto
    have "ticks (xs @ [x]) = Suc (ticks xs)" using x by (simp add: ticks_def)
    with cadence_inv_Frame [OF assms(1) ih, of f] run x show ?thesis by simp
  next
    case False
    then have t: "ticks (xs @ [x]) = ticks xs" by (simp add: ticks_def)
    have "x \<noteq> StopScan" using snoc.prems by auto
    with cadence_inv_other [OF ih False] run t show ?thesis by simp
  qed
qed

lemma cadence_inv_start: "cadence_inv N 0 (ActiveScan_start (new_ActiveScan an cap N rp))"
  by (simp add: cadence_inv_def ActiveScan_start_def new_ActiveScan_def)

lemma frames_of_snoc:
  "frames_of (ops @ [x]) = frames_of ops @ (case x of Frame f \<Rightarrow> [f] | _ \<Rightarrow> [])"
  by (induction ops rule: frames_of.induct) (simp_all split: scan_op.splits)

lemma ticks_frames: "ticks ops = length (frames_of ops)"
  by (induction ops rule: frames_of.induct) (simp_all add: ticks_def)

lemma due_frames_snoc_Frame:
  "due_frames N (ops @ [Frame f])
     = due_frames N ops @ (if N dvd ticks ops + 1 then [f] else [])"
  by (simp add: due_frames_def frames_of_snoc nths_append ticks_frames nths_Cons)

lemma due_frames_snoc_other:
  "\<not> is_Frame x \<Longrightarrow> due_frames N (ops @ [x]) = due_frames N ops"
  by (cases x) (simp_all add: due_frames_def frames_of_snoc)

lemma analyze_all_snoc: "analyze_all a (fs @ [f]) = fst (analyze f (analyze_all a fs))"
  by (simp add: analyze_all_def)

lemma analyzer_run:
  assumes "0 < N" and "StopScan \<notin> set ops"
  shows "analyzer (scan_run (ActiveScan_start (new_ActiveScan an cap N rp)) ops)
     = analyze_all an (due_frames N ops)"
  using assms(2)
proof (induction ops rule: rev_induct)
  case Nil
  show ?case
    by (simp add: scan_run_def due_frames_def analyze_all_def ActiveScan_start_def
        new_ActiveScan_def)
next
  case (snoc x xs)
  let ?start = "ActiveScan_start (new_ActiveScan an cap N rp)"
  let ?w = "scan_run ?start xs"
  have s: "StopScan \<notin> set xs" using snoc.prems by simp
  have ih: "analyzer ?w = analyze_all an (due_frames N xs)" using snoc.IH s by simp
  have c: "cadence_inv N (ticks xs) ?w"
    using assms(1) cadence_inv_start s by (rule cadence_inv_run)
  have run: "scan_run ?start (xs @ [x]) = scan_step ?w x" by (simp add: scan_run_def)
  show ?case
  proof (cases "is_Frame x")
    case False
    with ih run show ?thesis by (simp add: analyzer_other due_frames_snoc_other)
  next
    case True
    then obtain f where x: "x = Frame f" by (cases x) auto
    show ?thesis
    proof (cases "N dvd Suc (ticks xs)")
      case d: True
      then have "Suc (frameCount ?w) = scanPeriod ?w"
        using c due_iff [OF assms(1), of "ticks xs"] by (simp add: cadence_inv_def)
      then have "analyzer (scan_step ?w (Frame f)) = fst (analyze f (analyzer ?w))"
        using c Frame_due [of ?w f]
        by (cases "callback_arg (snd (analyze f (analyzer ?w)))")
          (simp_all add: cadence_inv_def on_result_fields)
      with ih run x d show ?thesis
        by (simp add: due_frames_snoc_Frame analyze_all_snoc)
    next
      case d: False
      then have "Suc (frameCount ?w) \<noteq> scanPeriod ?w"
        using c due_iff [OF assms(1), of "ticks xs"] by (simp add: cadence_inv_def)
      then have "analyzer (scan_step ?w (Frame f)) = analyzer ?w"
        using c Frame_skipped [of ?w f] by (simp add: cadence_inv_def)
      with ih run x d show ?thesis by (simp add: due_frames_snoc_Frame)
    qed
  qed
qed

text \<open>
  C5. For every positive cadence \<open>N\<close>, a started ActiveScan that is not stopped calls the
  analyzer once per \<open>N\<close> animation frames, whatever else happens in between and however
  many frames fire. After \<open>k\<close> frames it has made \<open>k div N\<close> attempts, and the state of
  the analyzer is the one that results from calling \<open>analyze\<close> on the frames numbered
  \<open>N\<close>, \<open>2N\<close>, ... in turn and on no other. The next frame, when its number is a multiple
  of \<open>N\<close>, resets the counter, calls \<open>analyze\<close> on that frame and hands a decoded result
  to the callback; when it is not, the frame only advances the counter (with \<open>N = 3\<close>:
  frames 1 and 2 of each group are skipped, frame 3 scans).
\<close>

theorem scan_cadence:
  assumes "0 < N" and "StopScan \<notin> set ops"
  shows "attempts (scan_run (ActiveScan_start (new_ActiveScan an cap N rp)) ops)
           = ticks ops div N
    \<and> analyzer (scan_run (ActiveScan_start (new_ActiveScan an cap N rp)) ops)
           = analyze_all an (due_frames N ops)
    \<and> (let w = scan_run (ActiveScan_start (new_ActiveScan an cap N rp)) ops
       in scan_run (ActiveScan_start (new_ActiveScan an cap N rp)) (ops @ [Frame f])
            = (if N dvd ticks ops + 1
               then case callback_arg (snd (analyze f (analyzer w))) of
                      None \<Rightarrow>
                        w\<lparr>frameCount := 0, analyzer := fst (analyze f (analyzer w)),
                          attempts := attempts w + 1\<rparr>
                    | Some r \<Rightarrow>
                        on_result r (dataURL f)
                          (w\<lparr>frameCount := 0, analyzer := fst (analyze f (analyzer w)),
                             attempts := attempts w + 1\<rparr>)
               else w\<lparr>frameCount := frameCount w + 1\<rparr>))"
proof -
  let ?start = "ActiveScan_start (new_ActiveScan an cap N rp)"
  let ?w = "scan_run ?start ops"
  have c: "cadence_inv N (ticks ops) ?w"
    using assms cadence_inv_start cadence_inv_run by blast
  have a: "attempts ?w = ticks ops div N" using c by (simp add: cadence_inv_def)
  have b: "analyzer ?w = analyze_all an (due_frames N ops)"
    using assms by (rule analyzer_run)
  have run: "scan_run ?start (ops @ [Frame f]) = scan_step ?w (Frame f)"
    by (simp add: scan_run_def)
  have d: "(Suc (frameCount ?w) = scanPeriod ?w) = (N dvd ticks ops + 1)"
    using c due_iff [OF assms(1), of "ticks ops"] by (simp add: cadence_inv_def)
  have f: "active ?w" "frames_requested ?w = 1" using c by (simp_all add: cadence_inv_def)
  have step: "scan_step ?w (Frame f)
      = (if N dvd ticks ops + 1
         then case callback_arg (snd (analyze f (analyzer ?w))) of
                None \<Rightarrow>
                  ?w\<lparr>frameCount := 0, analyzer := fst (analyze f (analyzer ?w)),
                     attempts := attempts ?w + 1\<rparr>
              | Some r \<Rightarrow>
                  on_result r (dataURL f)
                    (?w\<lparr>frameCount := 0, analyzer := fst (analyze f (analyzer ?w)),
                        attempts := attempts ?w + 1\<rparr>)
         else ?w\<lparr>frameCount := frameCount ?w + 1\<rparr>)"
  proof (cases "N dvd ticks ops + 1")
    case True
    then have "Suc (frameCount ?w) = scanPeriod ?w" using d by simp
    from Frame_due [OF f this, of f] True show ?thesis by (simp only: if_True)
  next
    case False
    then have "Suc (frameCount ?w) \<noteq> scanPeriod ?w" using d by simp
    from Frame_skipped [OF f this, of f] False show ?thesis by (simp only: if_False)
  qed
  show ?thesis unfolding Let_def run using a b step by (intro conjI)
qed

theorem scan_cadence_witness:
  "(0::nat) < 3
   \<and> StopScan \<notin> set [Frame (qr_frame ''A''), Frame (qr_frame ''A''), Frame (qr_frame ''A''),
                      Elapse 16, Frame (qr_frame ''A''), Frame (qr_frame ''A'')]
   \<and> attempts (scan_run (ActiveScan_start (new_ActiveScan (new_Analyzer None) False 3 5000))
       [Frame (qr_frame ''A''), Frame (qr_frame ''A''), Frame (qr_frame ''A''),
        Elapse 16, Frame (qr_frame ''A''), Frame (qr_frame ''A'')]) = 1
   \<and> imageBuffer (analyzer
       (scan_run (ActiveScan_start (new_ActiveScan (new_Analyzer None) False 3 5000))
         [Frame (qr_frame ''A''), Frame (qr_frame ''A''), Frame (qr_frame ''A''),
          Elapse 16, Frame (qr_frame ''A''), Frame (qr_frame ''A'')])) = Some 4096
   \<and> attempts (scan_run (ActiveScan_start (new_ActiveScan (new_Analyzer None) False 3 5000))
       ([Frame (qr_frame ''A''), Frame (qr_frame ''A''), Frame (qr_frame ''A''),
         Elapse 16, Frame (qr_frame ''A''), Frame (qr_frame ''A'')]
        @ [Frame (qr_frame ''A'')])) = 2
   \<and> zxDecodeResult (analyzer
       (scan_run (ActiveScan_start (new_ActiveScan (new_Analyzer None) False 3 5000))
         ([Frame (qr_frame ''A''), Frame (qr_frame ''A''), Frame (qr_frame ''A''),
           Elapse 16, Frame (qr_frame ''A''), Frame (qr_frame ''A'')]
          @ [Frame (qr_frame ''A'')]))) = Some ''A''"
proof -
  let ?q = "qr_frame ''A''"
  let ?ops = "[Frame ?q, Frame ?q, Frame ?q, Elapse 16, Frame ?q, Frame ?q]"
  let ?start = "ActiveScan_start (new_ActiveScan (new_Analyzer None) False 3 5000)"
  let ?w = "scan_run ?start ?ops"
  have n: "(0::nat) < 3" by simp
  have s: "StopScan \<notin> set ?ops" by simp
  have t: "ticks ?ops = 5" by (simp add: ticks_def)
  have d: "due_frames 3 ?ops = [?q]"
    by (simp add: due_frames_def nths_Cons dvd_three)
  have g: "analyze_all (new_Analyzer None) [?q] = establish_geometry ?q (new_Analyzer None)"
    by (simp add: analyze_all_def analyze_qr_first new_Analyzer_def)
  from scan_cadence [OF n s, of "new_Analyzer None" False 5000 ?q]
  have a: "attempts ?w = 1"
    and b: "analyzer ?w = establish_geometry ?q (new_Analyzer None)"
    and c: "scan_run ?start (?ops @ [Frame ?q])
        = (case callback_arg (snd (analyze ?q (analyzer ?w))) of
             None \<Rightarrow>
               ?w\<lparr>frameCount := 0, analyzer := fst (analyze ?q (analyzer ?w)),
                  attempts := attempts ?w + 1\<rparr>
           | Some r \<Rightarrow>
               on_result r (dataURL ?q)
                 (?w\<lparr>frameCount := 0, analyzer := fst (analyze ?q (analyzer ?w)),
                     attempts := attempts ?w + 1\<rparr>))"
    unfolding Let_def t d g by simp_all
  have i: "imageBuffer (analyzer ?w) = Some 4096" unfolding b by (rule geometry_buffer)
  have e: "attempts (scan_run ?start (?ops @ [Frame ?q])) = 2
      \<and> zxDecodeResult (analyzer (scan_run ?start (?ops @ [Frame ?q]))) = Some ''A''"
    unfolding c using analyze_qr_next [OF i, of "''A''"] a
    by (simp add: on_result_fields)
  show ?thesis using n s a i e by (intro conjI) simp_all
qed

lemma scan_events_step_inactive:
  "\<not> active w \<Longrightarrow>
     \<not> active (scan_step w x) \<and> attempts (scan_step w x) = attempts w
     \<and> scan_events (scan_step w x) = scan_events w
     \<and> frames_requested (scan_step w x) \<le> frames_requested w
     \<and> analyzer (scan_step w x) = analyzer w"
  by (cases x)
    (auto simp: ActiveScan_scan_def ActiveScan_stop_def scan_events_def
      split: option.splits list.splits)

lemma scan_run_inactive:
  "\<not> active w \<Longrightarrow>
     \<not> active (scan_run w ops) \<and> attempts (scan_run w ops) = attempts w
     \<and> scan_events (scan_run w ops) = scan_events w
     \<and> frames_requested (scan_run w ops) \<le> frames_requested w
     \<and> analyzer (scan_run w ops) = analyzer w"
proof (induction ops arbitrary: w)
  case Nil
  then show ?case by (simp add: scan_run_def)
next
  case (Cons x xs)
  have s: "\<not> active (scan_step w x)" using Cons.prems scan_events_step_inactive by blast
  have r: "scan_run w (x # xs) = scan_run (scan_step w x) xs" by (simp add: scan_run_def)
  show ?case
    using Cons.IH [OF s] scan_events_step_inactive [OF Cons.prems, of x] r
    by (metis le_trans)
qed

text \<open>
  C3, as amended. \<open>stop()\<close> may be called any number of times: a repeated call changes
  nothing. After it, whatever callbacks run, no scan attempt is made (the analyzer is
  not called and keeps its state), no new emission is queued (the \<open>scan\<close> events
  delivered or queued stay those of the moment of the stop) and no further frame is
  requested. \<open>stop()\<close> itself cancels nothing: the frame requested, the refractory timer
  and the queued emissions stay as they were, so the frame callback still runs (and
  returns at once), the timer still fires, and a queued emission is still delivered.
\<close>

theorem stop_halts_scanning:
  "ActiveScan_stop (ActiveScan_stop w) = ActiveScan_stop w
   \<and> \<not> active (scan_run (ActiveScan_stop w) ops)
   \<and> attempts (scan_run (ActiveScan_stop w) ops) = attempts w
   \<and> analyzer (scan_run (ActiveScan_stop w) ops) = analyzer w
   \<and> scan_events (scan_run (ActiveScan_stop w) ops) = scan_events w
   \<and> frames_requested (scan_run (ActiveScan_stop w) ops) \<le> frames_requested w
   \<and> frames_requested (ActiveScan_stop w) = frames_requested w
   \<and> refractoryTimeout (ActiveScan_stop w) = refractoryTimeout w
   \<and> emissions_queued (ActiveScan_stop w) = emissions_queued w"
proof -
  have i: "\<not> active (ActiveScan_stop w)" by (simp add: ActiveScan_stop_def)
  show ?thesis
    using scan_run_inactive [OF i, of ops]
    by (simp add: ActiveScan_stop_def scan_events_def)
qed

text \<open>
  C3 as stated fails: a session decodes \<open>A\<close> and is stopped before the queued emission
  ran. After the stop one frame is still requested, the refractory timer is still due at
  5000, the \<open>scan\<close> event for \<open>A\<close> is emitted once the emission callback runs, and the
  timer still fires and clears \<open>lastResult\<close>.
\<close>

theorem stop_cancels_counterexample:
  "emitted (scan_run scanning [Frame (qr_frame ''A''), Frame (qr_frame ''A''), StopScan]) = []
   \<and> frames_requested
       (scan_run scanning [Frame (qr_frame ''A''), Frame (qr_frame ''A''), StopScan]) = 1
   \<and> refractoryTimeout
       (scan_run scanning [Frame (qr_frame ''A''), Frame (qr_frame ''A''), StopScan]) = Some 5000
   \<and> emitted
       (scan_run scanning [Frame (qr_frame ''A''), Frame (qr_frame ''A''), StopScan, EmitTimer])
       = [scan_event ''A'' None]
   \<and> lastResult
       (scan_run scanning [Frame (qr_frame ''A''), Frame (qr_frame ''A''), StopScan]) = Some ''A''
   \<and> lastResult
       (scan_run scanning
          [Frame (qr_frame ''A''), Frame (qr_frame ''A''), StopScan, Elapse 5000, RefractoryTimer])
       = None"
  by (simp add: run_simps del: scan_step.simps(1))

lemma on_result_clock: "clock (on_result r u w) = clock w"
  by (simp add: on_result_def)

lemma clock_mono_step: "clock w \<le> clock (scan_step w x)"
  by (cases x)
    (auto simp: ActiveScan_scan_def ActiveScan_stop_def Let_def on_result_clock
      split: option.splits list.splits)

lemma clock_mono_run: "clock w \<le> clock (scan_run w ops)"
proof (induction ops arbitrary: w)
  case Nil
  show ?case by (simp add: scan_run_def)
next
  case (Cons x xs)
  have "clock w \<le> clock (scan_step w x)" by (rule clock_mono_step)
  also have "\<dots> \<le> clock (scan_run (scan_step w x) xs)" by (rule Cons.IH)
  finally show ?case by (simp add: scan_run_def)
qed

lemma on_result_same: "lastResult w = Some P \<Longrightarrow> on_result P u w = w"
  by (simp add: on_result_def)

lemma refractory_step:
  assumes "lastResult v = Some P" and "refractoryTimeout v = Some due"
    and "clock v < due"
    and "delivered v x = None \<or> delivered v x = Some P"
  shows "lastResult (scan_step v x) = Some P \<and> refractoryTimeout (scan_step v x) = Some due
    \<and> scan_events (scan_step v x) = scan_events v
    \<and> captureImage (scan_step v x) = captureImage v"
proof (cases x)
  case (Frame f)
  with assms show ?thesis
    by (auto simp: delivered_def ActiveScan_scan_def Let_def on_result_def scan_events_def
        split: if_splits)
next
  case RefractoryTimer
  with assms show ?thesis by simp
next
  case EmitTimer
  with assms show ?thesis by (auto simp: scan_events_def split: list.splits)
next
  case (Elapse ms)
  with assms show ?thesis by (simp add: scan_events_def)
next
  case StopScan
  with assms show ?thesis by (simp add: scan_events_def ActiveScan_stop_def)
qed

lemma refractory_run:
  assumes "lastResult v = Some P" and "refractoryTimeout v = Some due"
    and "decodes_only P v ops" and "clock (scan_run v ops) < due"
  shows "lastResult (scan_run v ops) = Some P \<and> refractoryTimeout (scan_run v ops) = Some due
    \<and> scan_events (scan_run v ops) = scan_events v
    \<and> captureImage (scan_run v ops) = captureImage v"
  using assms
proof (induction ops arbitrary: v)
  case Nil
  then show ?case by (simp add: scan_run_def)
next
  case (Cons x xs)
  have r: "scan_run v (x # xs) = scan_run (scan_step v x) xs" by (simp add: scan_run_def)
  have "clock v \<le> clock (scan_step v x)" by (rule clock_mono_step)
  also have "\<dots> \<le> clock (scan_run (scan_step v x) xs)" by (rule clock_mono_run)
  finally have c: "clock v < due" using Cons.prems(4) r by simp
  have d: "delivered v x = None \<or> delivered v x = Some P" using Cons.prems(3) by simp
  have st: "lastResult (scan_step v x) = Some P \<and> refractoryTimeout (scan_step v x) = Some due
    \<and> scan_events (scan_step v x) = scan_events v
    \<and> captureImage (scan_step v x) = captureImage v"
    using refractory_step [OF Cons.prems(1) Cons.prems(2) c d] .
  have "lastResult (scan_run (scan_step v x) xs) = Some P
    \<and> refractoryTimeout (scan_run (scan_step v x) xs) = Some due
    \<and> scan_events (scan_run (scan_step v x) xs) = scan_events (scan_step v x)
    \<and> captureImage (scan_run (scan_step v x) xs) = captureImage (scan_step v x)"
    using Cons.IH [of "scan_step v x"] st Cons.prems(3) Cons.prems(4) r by simp
  with st r show ?case by simp
qed

text \<open>
  C4, as amended. Let \<open>refractoryPeriod\<close> be below \<open>2^31\<close> milliseconds, the largest delay
  \<open>setTimeout\<close> honours. A payload \<open>P\<close> that differs from \<open>lastResult\<close> is queued for
  emission when decoded at time \<open>T\<close>. From then on, as long as no other payload is decoded
  and the time stays before \<open>T + refractoryPeriod\<close>, nothing is emitted or queued,
  \<open>lastResult\<close> stays \<open>P\<close>, and a decode of \<open>P\<close> leaves the whole session as it was. Once
  the timer has fired, at \<open>T + refractoryPeriod\<close> or later, \<open>lastResult\<close> is cleared and a
  decode of \<open>P\<close> queues a new emission.
\<close>

theorem refractory_window:
  assumes "refractoryPeriod w < 2 ^ 31"
    and "lastResult w \<noteq> Some P"
    and "decodes_only P (on_result P u w) ops"
    and "clock (scan_run (on_result P u w) ops) < clock w + refractoryPeriod w"
  shows "scan_events (on_result P u w)
           = scan_events w @ [scan_event P (if captureImage w then Some u else None)]
    \<and> scan_events (scan_run (on_result P u w) ops) = scan_events (on_result P u w)
    \<and> lastResult (scan_run (on_result P u w) ops) = Some P
    \<and> on_result P u' (scan_run (on_result P u w) ops) = scan_run (on_result P u w) ops
    \<and> (clock w + refractoryPeriod w \<le> clock (scan_run (on_result P u w) ops) + d \<longrightarrow>
         lastResult (scan_run (on_result P u w) (ops @ [Elapse d, RefractoryTimer])) = None
         \<and> scan_events
             (on_result P u' (scan_run (on_result P u w) (ops @ [Elapse d, RefractoryTimer])))
           = scan_events (on_result P u w)
             @ [scan_event P (if captureImage w then Some u' else None)])"
proof -
  let ?w1 = "on_result P u w"
  let ?due = "clock w + refractoryPeriod w"
  have l1: "lastResult ?w1 = Some P" using assms(2) by (simp add: on_result_def)
  have t1: "refractoryTimeout ?w1 = Some ?due"
    using assms(2) setTimeout_delay_small [OF assms(1)] by (simp add: on_result_def)
  have c1: "captureImage ?w1 = captureImage w" by (simp add: on_result_def)
  have e1: "scan_events ?w1
      = scan_events w @ [scan_event P (if captureImage w then Some u else None)]"
    using assms(2) by (simp add: on_result_def scan_events_def)
  have run: "lastResult (scan_run ?w1 ops) = Some P
    \<and> refractoryTimeout (scan_run ?w1 ops) = Some ?due
    \<and> scan_events (scan_run ?w1 ops) = scan_events ?w1
    \<and> captureImage (scan_run ?w1 ops) = captureImage ?w1"
    using refractory_run [OF l1 t1 assms(3) assms(4)] .
  have same: "on_result P u' (scan_run ?w1 ops) = scan_run ?w1 ops"
    using run on_result_same by blast
  have app: "scan_run ?w1 (ops @ [Elapse d, RefractoryTimer])
      = scan_step (scan_step (scan_run ?w1 ops) (Elapse d)) RefractoryTimer"
    by (simp add: scan_run_def)
  have after: "?due \<le> clock (scan_run ?w1 ops) + d \<Longrightarrow>
      lastResult (scan_run ?w1 (ops @ [Elapse d, RefractoryTimer])) = None
      \<and> scan_events (on_result P u' (scan_run ?w1 (ops @ [Elapse d, RefractoryTimer])))
          = scan_events ?w1 @ [scan_event P (if captureImage w then Some u' else None)]"
    using run c1 unfolding app by (simp add: on_result_def scan_events_def)
  show ?thesis using e1 run same after by blast
qed

lemma focused_eq:
  "focused = scanning\<lparr>frames_requested := 1, frameCount := 0,
         analyzer := establish_geometry (qr_frame ''A'') (analyzer scanning),
         attempts := Suc (attempts scanning)\<rparr>"
  by (simp add: focused_def run_simps del: scan_step.simps(1))

theorem refractory_window_witness:
  "refractoryPeriod focused < 2 ^ 31
   \<and> lastResult focused \<noteq> Some ''QR''
   \<and> decodes_only ''QR'' (on_result ''QR'' [] focused)
        [Elapse 100, Frame (qr_frame ''QR''), EmitTimer, Elapse 4899, Frame (qr_frame ''QR'')]
   \<and> clock (scan_run (on_result ''QR'' [] focused)
        [Elapse 100, Frame (qr_frame ''QR''), EmitTimer, Elapse 4899, Frame (qr_frame ''QR'')])
       < clock focused + refractoryPeriod focused
   \<and> scan_events (scan_run (on_result ''QR'' [] focused)
        [Elapse 100, Frame (qr_frame ''QR''), EmitTimer, Elapse 4899, Frame (qr_frame ''QR'')])
       = [scan_event ''QR'' None]
   \<and> scan_events (on_result ''QR'' []
        (scan_run (on_result ''QR'' [] focused)
          ([Elapse 100, Frame (qr_frame ''QR''), EmitTimer, Elapse 4899, Frame (qr_frame ''QR'')]
            @ [Elapse 1, RefractoryTimer])))
       = [scan_event ''QR'' None, scan_event ''QR'' None]"
proof -
  let ?ops = "[Elapse 100, Frame (qr_frame ''QR''), EmitTimer, Elapse 4899, Frame (qr_frame ''QR'')]"
  have h0: "refractoryPeriod focused < 2 ^ 31"
    by (simp add: focused_eq scanning_fields)
  have h1: "lastResult focused \<noteq> Some ''QR''"
    by (simp add: focused_eq scanning_fields)
  have h2: "decodes_only ''QR'' (on_result ''QR'' [] focused) ?ops"
    by (simp add: focused_eq run_simps delivered_def analyze_qr_next del: scan_step.simps(1))
  have h3: "clock (scan_run (on_result ''QR'' [] focused) ?ops)
      < clock focused + refractoryPeriod focused"
    by (simp add: focused_eq run_simps del: scan_step.simps(1))
  have c: "clock (scan_run (on_result ''QR'' [] focused) ?ops) = 4999"
    by (simp add: focused_eq run_simps del: scan_step.simps(1))
  have f: "clock focused = 0 \<and> refractoryPeriod focused = 5000 \<and> scan_events focused = []
      \<and> captureImage focused = False"
    by (simp add: focused_eq scanning_fields scan_events_def)
  show ?thesis
    using refractory_window [OF h0 h1 h2 h3, of "[]" 1] h0 h1 h2 h3 c f by simp
qed

text \<open>
  C4 as stated fails in two ways. When another payload is decoded in between: \<open>A\<close> at time
  0, \<open>B\<close> at time 1, \<open>A\<close> again at time 2, far before 0 + 5000, and \<open>A\<close> is emitted a
  second time. And when \<open>refractoryPeriod\<close> is \<open>2^31\<close> milliseconds: \<open>setTimeout\<close> reads
  the delay as negative, the timer fires at the next turn, and \<open>A\<close>, decoded at time 0 and
  again at time 1 with nothing else in between, is emitted a second time.
\<close>

theorem refractory_counterexample:
  "emitted (scan_run scanning
      [Frame (qr_frame ''A''), Frame (qr_frame ''A''), EmitTimer,
       Elapse 1, Frame (qr_frame ''B''), EmitTimer,
       Elapse 1, Frame (qr_frame ''A''), EmitTimer])
     = [scan_event ''A'' None, scan_event ''B'' None, scan_event ''A'' None]
   \<and> clock (scan_run scanning
      [Frame (qr_frame ''A''), Frame (qr_frame ''A''), EmitTimer,
       Elapse 1, Frame (qr_frame ''B''), EmitTimer,
       Elapse 1, Frame (qr_frame ''A''), EmitTimer]) = 2
   \<and> refractoryPeriod scanning = 5000
   \<and> emitted (scan_run scanning_long
      [Frame (qr_frame ''A''), Frame (qr_frame ''A''), EmitTimer,
       Elapse 1, RefractoryTimer, Frame (qr_frame ''A''), EmitTimer])
     = [scan_event ''A'' None, scan_event ''A'' None]
   \<and> clock (scan_run scanning_long
      [Frame (qr_frame ''A''), Frame (qr_frame ''A''), EmitTimer,
       Elapse 1, RefractoryTimer, Frame (qr_frame ''A''), EmitTimer]) = 1
   \<and> refractoryPeriod scanning_long = 2 ^ 31"
proof -
  have a: "emitted (scan_run scanning
      [Frame (qr_frame ''A''), Frame (qr_frame ''A''), EmitTimer,
       Elapse 1, Frame (qr_frame ''B''), EmitTimer,
       Elapse 1, Frame (qr_frame ''A''), EmitTimer])
     = [scan_event ''A'' None, scan_event ''B'' None, scan_event ''A'' None]
   \<and> clock (scan_run scanning
      [Frame (qr_frame ''A''), Frame (qr_frame ''A''), EmitTimer,
       Elapse 1, Frame (qr_frame ''B''), EmitTimer,
       Elapse 1, Frame (qr_frame ''A''), EmitTimer]) = 2
   \<and> refractoryPeriod scanning = 5000"
    by (simp add: run_simps del: scan_step.simps(1))
  have b: "emitted (scan_run scanning_long
      [Frame (qr_frame ''A''), Frame (qr_frame ''A''), EmitTimer,
       Elapse 1, RefractoryTimer, Frame (qr_frame ''A''), EmitTimer])
     = [scan_event ''A'' None, scan_event ''A'' None]
   \<and> clock (scan_run scanning_long
      [Frame (qr_frame ''A''), Frame (qr_frame ''A''), EmitTimer,
       Elapse 1, RefractoryTimer, Frame (qr_frame ''A''), EmitTimer]) = 1"
    by (simp add: run_simps scanning_long_fields del: scan_step.simps(1))
  have c: "refractoryPeriod scanning_long = 2 ^ 31"
    by (simp add: scanning_long_def ActiveScan_start_def new_ActiveScan_def)
  show ?thesis using a b c by (intro conjI) simp_all
qed
section \<open>Properties of Scanner\<close>


lemma leaveState_Active: "fst (leaveState src Active args s) \<noteq> Leave_undefined"
  by (simp add: leaveState_def onleavestate_def enableScan_def Let_def split: option.splits)

lemma disableScan_obs:
  "events (disableScan s) = events s" "current (disableScan s) = current s"
  "transition (disableScan s) = transition s"
  by (simp_all add: disableScan_def Let_def split: option.splits)

lemma onleaveactive_obs:
  "events (onleaveactive s) = events s @ [inactive_event]"
  "current (onleaveactive s) = current s"
  "transition (onleaveactive s) = transition s"
  by (simp_all add: onleaveactive_def emit_def disableScan_obs)

lemma enableScan_obs:
  "events (snd (enableScan c s)) = events s" "current (snd (enableScan c s)) = current s"
  "transition (snd (enableScan c s)) = transition s"
  "fst (enableScan c s) \<noteq> Leave_undefined"
  by (simp_all add: enableScan_def Let_def split: option.splits)

lemma onleavestate_obs:
  "events (snd (onleavestate dst c s)) = events s"
  "current (snd (onleavestate dst c s)) = current s"
  "transition (snd (onleavestate dst c s)) = transition s"
  "(fst (onleavestate dst c s) = Leave_undefined) = (dst \<noteq> Active)"
  by (simp_all add: onleavestate_def enableScan_obs)

lemma leaveState_obs:
  "events (snd (leaveState src dst args s))
     = events s @ (if src = Active then [inactive_event] else [])"
  "current (snd (leaveState src dst args s)) = current s"
  "transition (snd (leaveState src dst args s)) = transition s"
  by (simp_all add: leaveState_def Let_def onleavestate_obs onleaveactive_obs)

lemma leaveState_fst:
  "(fst (leaveState src dst args s) = Leave_undefined) = (dst \<noteq> Active)"
proof -
  let ?g = "onleavestate dst args (if src = Active then onleaveactive s else s)"
  have "(fst ?g = Leave_undefined) = (dst \<noteq> Active)" by (rule onleavestate_obs(4))
  moreover have "fst (leaveState src dst args s) = fst ?g"
    by (cases "fst ?g") (simp_all add: leaveState_def Let_def)
  ultimately show ?thesis by simp
qed

lemma ok_same:
  "ok es cur tr \<Longrightarrow> (cur' = Active) = (cur = Active) \<Longrightarrow>
     (case tr' of None \<Rightarrow> True | Some p \<Rightarrow> p_to p = Active \<and> cur' \<noteq> Active) \<Longrightarrow>
     ok es cur' tr'"
  by (simp add: ok_def)

lemma ok_inactive:
  "ok es Active tr \<Longrightarrow> cur' \<noteq> Active \<Longrightarrow> ok (es @ [inactive_event]) cur' None"
  by (auto simp: ok_def signals_def distinct_adj_append_iff)

lemma ok_active:
  "ok es cur tr \<Longrightarrow> cur \<noteq> Active \<Longrightarrow> ok (es @ [active_event]) Active None"
  by (auto simp: ok_def signals_def distinct_adj_append_iff)

lemma ok_error:
  "ok es cur tr \<Longrightarrow> ok (es @ [error_event e]) cur None"
  by (simp add: ok_def signals_def)

lemma lookup_cases:
  "lookup_event events_table name src = Some dst \<Longrightarrow>
     (name = start_event \<and> src = Stopped \<and> dst = Started)
     \<or> (name = stop_event \<and> src \<noteq> Stopped \<and> dst = Stopped)
     \<or> (name = activate_event \<and> (src = Started \<or> src = Inactive) \<and> dst = Active)
     \<or> (name = deactivate_event \<and> (src = Started \<or> src = Active) \<and> dst = Inactive)"
  by (cases name; cases src) (simp_all add: events_table_def)

lemma fire_pending:
  "transition s = Some q \<Longrightarrow> fire name args s = (Thrown (PENDING_TRANSITION name), s)"
  by (simp add: fire.simps)

lemma fire_invalid:
  "transition s = None \<Longrightarrow> lookup_event events_table name (current s) = None \<Longrightarrow>
     fire name args s = (Thrown (INVALID_TRANSITION name), s)"
  by (simp add: fire.simps)

lemma fire_to_Active:
  assumes "transition s = None" "lookup_event events_table name (current s) = Some Active"
  shows "events (snd (fire name args s)) = events s
    \<and> current (snd (fire name args s)) = current s
    \<and> (transition (snd (fire name args s)) = None
        \<or> transition (snd (fire name args s))
            = Some \<lparr>p_name = name, p_from = current s, p_to = Active, p_args = args\<rparr>)
    \<and> fst (fire name args s) \<in> {CANCELLED, PENDING}"
proof -
  let ?p = "\<lparr>p_name = name, p_from = current s, p_to = Active, p_args = args\<rparr>"
  let ?s0 = "s\<lparr>transition := Some ?p\<rparr>"
  obtain lr s1 where L: "leaveState (current s) Active args ?s0 = (lr, s1)"
    by (cases "leaveState (current s) Active args ?s0")
  have src: "current s \<noteq> Active" using assms(2) lookup_cases by fastforce
  have e: "events s1 = events s" "current s1 = current s" "transition s1 = Some ?p"
    using leaveState_obs(1-3) [of "current s" Active args ?s0] L src by simp_all
  have lr: "lr \<noteq> Leave_undefined"
    using leaveState_fst [of "current s" Active args ?s0] L by simp
  show ?thesis
    using assms src L e lr by (cases lr) (simp_all add: fire.simps)
qed

lemma leaveState_plain:
  "src \<noteq> Active \<Longrightarrow> dst \<noteq> Active \<Longrightarrow> leaveState src dst args s = (Leave_undefined, s)"
  by (simp add: leaveState_def onleavestate_def)

lemma leaveState_from_Active:
  "dst \<noteq> Active \<Longrightarrow> leaveState Active dst args s = (Leave_undefined, onleaveactive s)"
  by (simp add: leaveState_def onleavestate_def)

lemma fsm_transition_plain:
  "p_to p \<noteq> Active \<Longrightarrow> p_to p \<noteq> Started \<Longrightarrow>
     fsm_transition p s = (SUCCEEDED, s\<lparr>transition := None, current := p_to p\<rparr>)"
  by (simp add: fsm_transition.simps)

lemma fsm_transition_Active:
  "p_to p = Active \<Longrightarrow>
     fsm_transition p s = (SUCCEEDED, emit active_event (s\<lparr>transition := None, current := Active\<rparr>))"
  by (simp add: fsm_transition.simps)

lemma fire_leaving:
  assumes "transition s = None" and "lookup_event events_table name (current s) = Some dst"
    and "dst \<noteq> Active" and "dst \<noteq> Started"
  shows "fire name args s
     = (SUCCEEDED,
        (if current s = Active
         then onleaveactive
                (s\<lparr>transition := Some \<lparr>p_name = name, p_from = current s, p_to = dst,
                                      p_args = args\<rparr>\<rparr>)
         else s)\<lparr>transition := None, current := dst\<rparr>)"
proof -
  have ne: "current s \<noteq> dst" using assms(2-4) lookup_cases by fastforce
  show ?thesis
  proof (cases "current s = Active")
    case True
    with assms ne show ?thesis
      by (simp add: fire.simps leaveState_from_Active onleaveactive_obs fsm_transition_plain)
  next
    case False
    with assms ne show ?thesis
      by (simp add: fire.simps leaveState_plain fsm_transition_plain)
  qed
qed

lemma fire_start:
  assumes "transition s = None" and "current s = Stopped"
  shows "fire start_event args s
     = (case fire activate_event args (s\<lparr>transition := None, current := Started\<rparr>) of
          (Thrown e, s2) \<Rightarrow> (Thrown e, s2)
        | (r, s2) \<Rightarrow> (SUCCEEDED, s2))"
  using assms
  by (simp add: fire.simps [of start_event] events_table_def leaveState_plain
      fsm_transition.simps)

lemma snd_fire_start:
  assumes "transition s = None" and "current s = Stopped"
  shows "snd (fire start_event args s)
     = snd (fire activate_event args (s\<lparr>transition := None, current := Started\<rparr>))"
proof -
  obtain r s2 where
    a: "fire activate_event args (s\<lparr>transition := None, current := Started\<rparr>) = (r, s2)"
    by (cases "fire activate_event args (s\<lparr>transition := None, current := Started\<rparr>)")
  show ?thesis using fire_start [OF assms, of args] a by (cases r) simp_all
qed

lemma consistent_fire_to_Active:
  assumes "consistent s" and "transition s = None"
    and "lookup_event events_table name (current s) = Some Active"
  shows "consistent (snd (fire name args s))"
proof -
  have src: "current s \<noteq> Active" using assms(3) lookup_cases by fastforce
  from fire_to_Active [OF assms(2,3), of args] assms(1) src show ?thesis
    unfolding consistent_def by (auto intro: ok_same)
qed

lemma consistent_fire: "consistent s \<Longrightarrow> consistent (snd (fire name args s))"
proof -
  assume c: "consistent s"
  show ?thesis
  proof (cases "transition s")
    case (Some q)
    with c show ?thesis by (simp add: fire_pending)
  next
    case None
    show ?thesis
    proof (cases "lookup_event events_table name (current s)")
      case none: None
      with None c show ?thesis by (simp add: fire_invalid)
    next
      case (Some dst)
      consider "dst = Active" | "dst = Started" | "dst \<noteq> Active" "dst \<noteq> Started"
        by blast
      then show ?thesis
      proof cases
        case 1
        with c None Some show ?thesis using consistent_fire_to_Active by blast
      next
        case 2
        with Some have n: "name = start_event" and st: "current s = Stopped"
          using lookup_cases by fastforce+
        let ?s1 = "s\<lparr>transition := None, current := Started\<rparr>"
        have c1: "consistent ?s1"
          using c st unfolding consistent_def by (auto intro: ok_same)
        have "lookup_event events_table activate_event (current ?s1) = Some Active"
          by (simp add: events_table_def)
        then have "consistent (snd (fire activate_event args ?s1))"
          using consistent_fire_to_Active [OF c1] by simp
        then show ?thesis using snd_fire_start [OF None st] n by simp
      next
        case 3
        show ?thesis
        proof (cases "current s = Active")
          case True
          from c True have "ok (events s) Active (transition s)" by (simp add: consistent_def)
          then have "ok (events s @ [inactive_event]) dst None"
            using 3(1) by (rule ok_inactive)
          then show ?thesis
            using fire_leaving [OF None Some 3, of args] True
            by (simp add: consistent_def onleaveactive_obs)
        next
          case False
          from c False 3(1) have "ok (events s) dst None"
            unfolding consistent_def by (auto intro: ok_same)
          then show ?thesis
            using fire_leaving [OF None Some 3, of args] False
            by (simp add: consistent_def)
        qed
      qed
    qed
  qed
qed

lemma snd_thrown: "snd (thrown r) = snd r"
  by (cases "fst r") (simp_all add: thrown_def)

lemma snd_stop_then_start:
  "snd (stop_then_start c s) = snd (fire stop_event None s)
   \<or> snd (stop_then_start c s) = snd (fire start_event c (snd (fire stop_event None s)))"
proof -
  obtain r s1 where f: "fire stop_event None s = (r, s1)" by (cases "fire stop_event None s")
  then show ?thesis by (cases r) (simp_all add: stop_then_start_def snd_thrown)
qed

lemma consistent_stop_then_start: "consistent s \<Longrightarrow> consistent (snd (stop_then_start c s))"
  using snd_stop_then_start [of c s] consistent_fire by metis

lemma consistent_update:
  "consistent s \<Longrightarrow> events s' = events s \<Longrightarrow> current s' = current s \<Longrightarrow>
     transition s' = transition s \<Longrightarrow> consistent s'"
  by (simp add: consistent_def)

lemma consistent_callback: "consistent s \<Longrightarrow> consistent (snd (enableScan_callback r s))"
proof (cases r)
  case (Inl err)
  assume c: "consistent s"
  show ?thesis
  proof (cases "transition s")
    case None
    with c Inl show ?thesis by (simp add: enableScan_callback_def)
  next
    case (Some p)
    from c have "ok (events s @ [error_event err]) (current s) None"
      unfolding consistent_def by (rule ok_error)
    with Inl Some show ?thesis
      by (simp add: enableScan_callback_def consistent_def emit_def)
  qed
next
  case (Inr url)
  assume c: "consistent s"
  let ?s1 = "s\<lparr>video_src := url,
               the_analyzer := shared_analyzer s,
               the_scan := Some (ActiveScan_start
                 (new_ActiveScan (shared_analyzer s) (opt_captureImage s)
                    (opt_scanPeriod s) (opt_refractoryPeriod s)))\<rparr>"
  have c1: "consistent ?s1" using c by (rule consistent_update) simp_all
  show ?thesis
  proof (cases "transition s")
    case None
    with c1 Inr show ?thesis by (simp add: enableScan_callback_def Let_def)
  next
    case (Some p)
    from c Some have p: "p_to p = Active" "current s \<noteq> Active"
      by (simp_all add: consistent_def ok_def)
    from c p(2) have "ok (events s @ [active_event]) Active None"
      unfolding consistent_def by (rule ok_active)
    with Inr Some p show ?thesis
      by (simp add: enableScan_callback_def Let_def snd_thrown fsm_transition_Active
          consistent_def emit_def)
  qed
qed

lemma consistent_step: "consistent s \<Longrightarrow> consistent (step s x)"
proof (cases x)
  case (Start c)
  assume "consistent s"
  then show ?thesis
    using Start consistent_fire consistent_stop_then_start
    by (simp add: Scanner_start_def snd_thrown)
next
  case Stop
  assume "consistent s"
  then show ?thesis using Stop consistent_fire by (simp add: Scanner_stop_def snd_thrown)
next
  case (Set_camera c)
  assume c: "consistent s"
  have "consistent (s\<lparr>the_camera := c\<rparr>)" using c by (rule consistent_update) simp_all
  with c show ?thesis
    using Set_camera consistent_stop_then_start by (simp add: set_camera_def)
next
  case (Visibility v)
  assume c: "consistent s"
  have 1: "consistent (s\<lparr>page := v\<rparr>)" using c by (rule consistent_update) simp_all
  have 2: "consistent (s\<lparr>page := v, deferred_activations := Suc (deferred_activations s)\<rparr>)"
    using c by (rule consistent_update) simp_all
  show ?thesis
    using Visibility 1 2 consistent_fire [OF 1]
    by (auto simp: visibility_change_def snd_thrown)
next
  case Timeout
  assume c: "consistent s"
  have 1: "consistent (s\<lparr>deferred_activations := deferred_activations s - 1\<rparr>)"
    using c by (rule consistent_update) simp_all
  show ?thesis
    using Timeout c 1 consistent_fire [OF 1]
    by (simp add: deferred_activate_def snd_thrown)
next
  case (Camera_callback r)
  assume "consistent s"
  then show ?thesis using Camera_callback consistent_callback by simp
next
  case (Media_settled dev outcome)
  assume c: "consistent s"
  show ?thesis
  proof (cases "media_requests s")
    case Nil
    with c Media_settled show ?thesis by simp
  next
    case (Cons cam rest)
    have "consistent (s\<lparr>media_requests := rest,
        cameras := (cameras s)(cam := fst (Camera_start dev outcome (cameras s cam)))\<rparr>)"
      using c by (rule consistent_update) simp_all
    with Cons Media_settled show ?thesis by simp
  qed
next
  case On_error
  assume c: "consistent s"
  have "consistent (s\<lparr>error_listeners := error_listeners s + 1\<rparr>)"
    using c by (rule consistent_update) simp_all
  with On_error show ?thesis by simp
qed

lemma consistent_run: "consistent s \<Longrightarrow> consistent (run s ops)"
  unfolding run_def by (induction ops arbitrary: s) (simp_all add: consistent_step)

lemma consistent_new: "consistent (new_Scanner opts vis cams zx)"
  by (simp add: new_Scanner_def emit_def consistent_def ok_def signals_def)

text \<open>
  C2. Whatever sequence of calls (\<open>start\<close>, \<open>stop\<close>, the \<open>camera\<close> setter, \<open>on\<close>),
  visibility changes, scheduled callbacks and camera callbacks a Scanner goes through, the \<open>active\<close>
  and \<open>inactive\<close> events it has emitted alternate strictly: the first is the \<open>inactive\<close>
  of the constructor, no two neighbours are equal (so every \<open>active\<close> is followed by
  exactly one \<open>inactive\<close> before the next \<open>active\<close>), and the last one is \<open>active\<close>
  exactly when the state is Active.
\<close>

theorem active_inactive_alternate:
  "distinct_adj (signals (events (run (new_Scanner opts vis cams zx) ops)))
   \<and> hd (signals (events (run (new_Scanner opts vis cams zx) ops))) = inactive_event
   \<and> (last (signals (events (run (new_Scanner opts vis cams zx) ops))) = active_event)
       = (current (run (new_Scanner opts vis cams zx) ops) = Active)"
  using consistent_run [OF consistent_new, of opts vis cams zx ops]
  by (simp add: consistent_def ok_def)




lemma enableScan_camera:
  assumes "(case camera of Some c \<Rightarrow> Some c | None \<Rightarrow> the_camera s) = Some c"
  shows "enableScan camera s
     = (Leave_ASYNC,
        s\<lparr>the_camera := Some c, media_requests := media_requests s @ [c],
          started_cameras := started_cameras s @ [c]\<rparr>)"
  using assms by (simp add: enableScan_def Let_def)

lemma leaveState_activate:
  assumes "src \<noteq> Active" and "page s = Visible \<or> backgroundScan s"
    and "(case camera of Some c \<Rightarrow> Some c | None \<Rightarrow> the_camera s) = Some c"
  shows "leaveState src Active camera s
     = (Leave_ASYNC,
        s\<lparr>the_camera := Some c, media_requests := media_requests s @ [c],
          started_cameras := started_cameras s @ [c]\<rparr>)"
  using assms(1,2) enableScan_camera [OF assms(3)]
  by (auto simp: leaveState_def onleavestate_def)

lemma fire_activate_pending:
  assumes "transition s = None" and "current s = Started \<or> current s = Inactive"
    and "page s = Visible \<or> backgroundScan s"
    and "(case camera of Some c \<Rightarrow> Some c | None \<Rightarrow> the_camera s) = Some c"
  shows "fire activate_event camera s
     = (PENDING,
        s\<lparr>transition := Some \<lparr>p_name = activate_event, p_from = current s, p_to = Active,
                               p_args = camera\<rparr>,
          the_camera := Some c,
          media_requests := media_requests s @ [c],
          started_cameras := started_cameras s @ [c]\<rparr>)"
proof -
  let ?s0 = "s\<lparr>transition := Some \<lparr>p_name = activate_event, p_from = current s,
                                      p_to = Active, p_args = camera\<rparr>\<rparr>"
  have l: "lookup_event events_table activate_event (current s) = Some Active"
    using assms(2) by (auto simp: events_table_def)
  have src: "current s \<noteq> Active" using assms(2) by auto
  have "leaveState (current s) Active camera ?s0
      = (Leave_ASYNC,
         ?s0\<lparr>the_camera := Some c, media_requests := media_requests ?s0 @ [c],
             started_cameras := started_cameras ?s0 @ [c]\<rparr>)"
    using assms(3,4) by (intro leaveState_activate [OF src]) (simp_all split: option.splits)
  then show ?thesis
    using assms(1) l src by (simp add: fire.simps)
qed






















lemma fresh_fields:
  "current fresh = Stopped" "transition fresh = None" "the_scan fresh = None"
  "the_camera fresh = None" "backgroundScan fresh = False" "page fresh = Visible"
  "media_requests fresh = []" "events fresh = [inactive_event]"
  "deferred_activations fresh = 0" "cameras fresh = (\<lambda>r. back_camera)"
  "stopped_tracks fresh = []" "video_src fresh = []" "started_cameras fresh = []"
  "error_listeners fresh = 0"
  by (simp_all add: fresh_def new_Scanner_def emit_def or_false_def)

lemma awaiting_eq:
  "awaiting
     = fresh\<lparr>current := Started,
             transition := Some \<lparr>p_name = activate_event, p_from = Started, p_to = Active,
                                  p_args = Some 0\<rparr>,
             the_camera := Some 0,
             media_requests := [0],
             started_cameras := [0]\<rparr>"
proof -
  have c: "can start_event fresh" by (simp add: can_def fresh_fields events_table_def)
  have "fire activate_event (Some 0) (fresh\<lparr>transition := None, current := Started\<rparr>)
      = (PENDING,
         fresh\<lparr>transition := None, current := Started\<rparr>
           \<lparr>transition := Some \<lparr>p_name = activate_event, p_from = Started, p_to = Active,
                                  p_args = Some 0\<rparr>,
            the_camera := Some 0,
            media_requests := media_requests (fresh\<lparr>transition := None, current := Started\<rparr>) @ [0],
            started_cameras := started_cameras (fresh\<lparr>transition := None, current := Started\<rparr>) @ [0]\<rparr>)"
    using fire_activate_pending
      [of "fresh\<lparr>transition := None, current := Started\<rparr>" "Some 0" 0]
    by (simp add: fresh_fields)
  then show ?thesis
    using c
    by (simp add: awaiting_def Scanner_start_def snd_thrown snd_fire_start fresh_fields)
qed

lemma awaiting_fields:
  "current awaiting = Started"
  "transition awaiting
     = Some \<lparr>p_name = activate_event, p_from = Started, p_to = Active, p_args = Some 0\<rparr>"
  "media_requests awaiting = [0]" "events awaiting = [inactive_event]"
  "the_scan awaiting = None" "cameras awaiting 0 = back_camera"
  "the_camera awaiting = Some 0" "started_cameras awaiting = [0]"
  "page awaiting = Visible" "backgroundScan awaiting = False"
  "deferred_activations awaiting = 0" "stopped_tracks awaiting = []"
  "cameras awaiting (Suc 0) = back_camera"
  by (simp_all add: awaiting_eq fresh_fields)












lemma fresh_run:
  "awaiting = run fresh [Start (Some 0)]"
  "live = run fresh [Start (Some 0), Media_settled False (Inr video_stream),
     Camera_callback (Inr ''blob:stream'')]"
  "paused = run fresh [Start (Some 0), Media_settled False (Inr video_stream),
     Camera_callback (Inr ''blob:stream''), Visibility Hidden]"
  "resumed = run fresh [Start (Some 0), Media_settled False (Inr video_stream),
     Camera_callback (Inr ''blob:stream''), Visibility Hidden, Visibility Visible]"
  "swapped = run fresh [Start (Some 0), Media_settled False (Inr video_stream),
     Camera_callback (Inr ''blob:stream''), Visibility Hidden, Visibility Visible,
     Timeout, Media_settled False (Inr video_stream), Set_camera (Some 1),
     Camera_callback (Inr ''blob:stream'')]"
  "overtaken = run fresh [Start (Some 0), Visibility Hidden,
     Camera_callback (Inr ''blob:stream'')]"
  by (simp_all add: run_def swapped_def reacquired_def resumed_def paused_def live_def
      overtaken_def awaiting_def del: step.simps)




lemma run_snoc: "run s (ops @ [x]) = step (run s ops) x"
  by (simp add: run_def)

lemma settled_obs:
  "events (step s (Media_settled dev outcome)) = events s"
  "transition (step s (Media_settled dev outcome)) = transition s"
  "current (step s (Media_settled dev outcome)) = current s"
  "the_scan (step s (Media_settled dev outcome)) = the_scan s"
  by (simp_all split: list.splits)

text \<open>
  The callback of \<open>_enableScan\<close>, when it is called with an error while the transition
  is pending, cancels the transition and emits \<open>error\<close>; the state and the ActiveScan
  stay as they were. With no listener attached for \<open>error\<close> the \<open>emit\<close> throws the
  error, after the transition was cancelled.
\<close>

lemma callback_error_cancels:
  assumes "transition s = Some p"
  shows "enableScan_callback (Inl err) s
     = (if error_listeners s = 0 then Some (Unhandled_error err) else None,
        emit (error_event err) (s\<lparr>transition := None\<rparr>))"
  using assms by (simp add: enableScan_callback_def)

text \<open>
  C1 fails on the sources. After \<open>start(camera)\<close> with a Camera of the sources the
  activation is pending and one \<open>getUserMedia\<close> request is open. When the request is
  rejected, \<open>Camera.start\<close> rejects its promise with a \<open>MediaError\<close>, and the Scanner is
  as before: no \<open>error\<close> event, the transition still pending, so that neither \<open>stop\<close>
  nor \<open>activate\<close> can be fired any more.
\<close>

theorem camera_failure_unreported:
  "awaiting = run fresh [Start (Some 0)]
   \<and> media_requests awaiting = [0]
   \<and> transition awaiting
       = Some \<lparr>p_name = activate_event, p_from = Started, p_to = Active, p_args = Some 0\<rparr>
   \<and> snd (Camera_start False (Inl denied) (cameras awaiting 0))
       = Inl (MediaError ''NotAllowedError'' denied)
   \<and> events (step awaiting (Media_settled False (Inl denied))) = [inactive_event]
   \<and> transition (step awaiting (Media_settled False (Inl denied))) = transition awaiting
   \<and> current (step awaiting (Media_settled False (Inl denied))) = Started
   \<and> media_requests (step awaiting (Media_settled False (Inl denied))) = []
   \<and> \<not> can stop_event (step awaiting (Media_settled False (Inl denied)))
   \<and> \<not> can activate_event (step awaiting (Media_settled False (Inl denied)))"
  by (rule conjI [OF fresh_run(1)])
    (simp add: settled_obs awaiting_fields can_def Camera_start_def wrapErrors_def
      denied_def del: step.simps, simp add: awaiting_fields)

lemma start_pending:
  assumes "transition s = Some q"
  shows "Scanner_start camera s = (Some (PENDING_TRANSITION stop_event), s)"
  using assms by (simp add: Scanner_start_def can_def stop_then_start_def fire_pending)

lemma set_camera_pending:
  assumes "transition s = Some q" and "current s = Started \<or> current s = Active"
  shows "set_camera camera s = (Some (PENDING_TRANSITION stop_event), s)"
  using assms by (auto simp: set_camera_def stop_then_start_def fire_pending)

text \<open>
  C6 fails while a transition is pending. \<open>start\<close>, called again before the camera has
  answered, with or without a camera, throws the library's pending-transition error
  from its forced \<open>stop\<close>; nothing is stopped, nothing is started.
\<close>

theorem start_while_pending_throws:
  "awaiting = run fresh [Start (Some 0)]
   \<and> current awaiting = Started
   \<and> transition awaiting
       = Some \<lparr>p_name = activate_event, p_from = Started, p_to = Active, p_args = Some 0\<rparr>
   \<and> Scanner_start (Some 0) awaiting = (Some (PENDING_TRANSITION stop_event), awaiting)
   \<and> Scanner_start None awaiting = (Some (PENDING_TRANSITION stop_event), awaiting)
   \<and> run fresh [Start (Some 0), Start (Some 0)] = awaiting"
proof -
  have t: "\<And>camera. Scanner_start camera awaiting
      = (Some (PENDING_TRANSITION stop_event), awaiting)"
    using awaiting_fields(2) by (rule start_pending)
  have "run fresh [Start (Some 0), Start (Some 0)] = step awaiting (Start (Some 0))"
    by (simp add: run_def awaiting_def del: step.simps)
  then have r: "run fresh [Start (Some 0), Start (Some 0)] = awaiting"
    by (simp add: t)
  show ?thesis using fresh_run(1) awaiting_fields(1,2) t r by blast
qed

text \<open>
  C7 fails while a transition is pending. Assigning \<open>camera\<close> in state Started before
  the camera has answered throws the library's pending-transition error from the forced
  \<open>stop\<close>; the new camera is not recorded and nothing is restarted.
\<close>

theorem set_camera_while_pending_throws:
  "awaiting = run fresh [Start (Some 0)]
   \<and> current awaiting = Started
   \<and> the_camera awaiting = Some 0
   \<and> set_camera (Some 1) awaiting = (Some (PENDING_TRANSITION stop_event), awaiting)
   \<and> run fresh [Start (Some 0), Set_camera (Some 1)] = awaiting"
proof -
  have t: "set_camera (Some 1) awaiting = (Some (PENDING_TRANSITION stop_event), awaiting)"
    using awaiting_fields(2) by (rule set_camera_pending) (simp add: awaiting_fields)
  have "run fresh [Start (Some 0), Set_camera (Some 1)] = step awaiting (Set_camera (Some 1))"
    by (simp add: run_def awaiting_def del: step.simps)
  then have r: "run fresh [Start (Some 0), Set_camera (Some 1)] = awaiting"
    using t by simp
  have c: "the_camera awaiting = Some 0" by (simp add: awaiting_eq)
  show ?thesis using fresh_run(1) awaiting_fields(1) c t r by blast
qed

lemma fire_start_settled:
  assumes "transition s = None" and "current s = Stopped"
  shows "fst (fire start_event camera s) = SUCCEEDED
    \<and> current (snd (fire start_event camera s)) = Started
    \<and> events (snd (fire start_event camera s)) = events s"
proof -
  let ?s1 = "s\<lparr>transition := None, current := Started\<rparr>"
  obtain r s2 where a: "fire activate_event camera ?s1 = (r, s2)"
    by (cases "fire activate_event camera ?s1")
  have l: "lookup_event events_table activate_event (current ?s1) = Some Active"
    by (simp add: events_table_def)
  have "events s2 = events ?s1 \<and> current s2 = current ?s1 \<and> r \<in> {CANCELLED, PENDING}"
    using fire_to_Active [of ?s1 activate_event camera] l a by simp
  then show ?thesis
    using fire_start [OF assms, of camera] a by auto
qed

lemma stop_then_start_settled:
  assumes "transition s = None" and "current s \<noteq> Stopped"
  shows "fst (stop_then_start camera s) = None
    \<and> current (snd (stop_then_start camera s)) = Started
    \<and> events (snd (stop_then_start camera s))
        = events s @ (if current s = Active then [inactive_event] else [])"
proof -
  let ?s' = "(if current s = Active
         then onleaveactive
                (s\<lparr>transition := Some \<lparr>p_name = stop_event, p_from = current s,
                                      p_to = Stopped, p_args = None\<rparr>\<rparr>)
         else s)\<lparr>transition := None, current := Stopped\<rparr>"
  have l: "lookup_event events_table stop_event (current s) = Some Stopped"
    using assms(2) by (cases "current s") (simp_all add: events_table_def)
  have f: "fire stop_event None s = (SUCCEEDED, ?s')"
    using fire_leaving [OF assms(1) l, of None] by simp
  have e: "events ?s' = events s @ (if current s = Active then [inactive_event] else [])"
    by (simp add: onleaveactive_obs)
  have "fst (fire start_event camera ?s') = SUCCEEDED
    \<and> current (snd (fire start_event camera ?s')) = Started
    \<and> events (snd (fire start_event camera ?s')) = events ?s'"
    by (rule fire_start_settled) simp_all
  then show ?thesis
    using f e by (simp add: stop_then_start_def thrown_def)
qed

text \<open>
  With no transition pending, \<open>start\<close> and the \<open>camera\<close> setter do what is said of them:
  no exception, an \<open>inactive\<close> event when Active was left, and the state is Started (with
  the activation vetoed, abandoned for want of a camera, or pending).
\<close>

lemma start_settled:
  assumes "transition s = None"
  shows "fst (Scanner_start camera s) = None
    \<and> current (snd (Scanner_start camera s)) = Started
    \<and> events (snd (Scanner_start camera s))
        = events s @ (if current s = Active then [inactive_event] else [])"
proof (cases "current s = Stopped")
  case True
  then have c: "can start_event s" using assms by (simp add: can_def events_table_def)
  show ?thesis
    using fire_start_settled [OF assms True, of camera] c True
    by (simp add: Scanner_start_def thrown_def)
next
  case False
  then have c: "\<not> can start_event s"
    by (cases "current s") (simp_all add: can_def events_table_def)
  show ?thesis
    using stop_then_start_settled [OF assms False, of camera] c
    by (simp add: Scanner_start_def)
qed

lemma set_camera_settled:
  assumes "transition s = None"
  shows "(current s = Stopped \<or> current s = Inactive \<longrightarrow>
            set_camera camera s = (None, s\<lparr>the_camera := camera\<rparr>))
    \<and> (current s = Started \<or> current s = Active \<longrightarrow>
          fst (set_camera camera s) = None
          \<and> current (snd (set_camera camera s)) = Started
          \<and> events (snd (set_camera camera s))
              = events s @ (if current s = Active then [inactive_event] else []))"
  using stop_then_start_settled [OF assms, of camera]
  by (auto simp: set_camera_def)

end
